theory Spec2Isabelle
  imports Complex_Main "HOL-Library.Multiset" "HOL-Library.Sublist"
begin

text \<open>
  The movie service of \<^verbatim>\<open>main.go\<close>: the title resolver (\<^verbatim>\<open>getDetailByTitle\<close>), the keyword
  candidate collector (\<^verbatim>\<open>collectByGenre\<close>), the ranker (\<^verbatim>\<open>ratingVal\<close>, \<^verbatim>\<open>topByRating\<close>) and
  the recommendation handler (\<^verbatim>\<open>recommendHandler\<close>), as functions of the provider's
  answers. Line numbers are those of \<^verbatim>\<open>main.go\<close>.
\<close>

section \<open>Data model\<close>

text \<open>
  A decoded JSON value, as \<^verbatim>\<open>encoding/json\<close> stores it in an \<^verbatim>\<open>interface{}\<close>.
  The program only ever asks whether a value is a string and, if so, which one; the payload
  of a number (a float64) is never inspected, so it is kept as the rational it denotes.
\<close>

datatype json =
    JNull
  | JBool bool
  | JNumber rat
  | JString string
  | JArray "json list"
  | JObject "(string \<times> json) list"

text \<open>
  \<^verbatim>\<open>map[string]interface{}\<close>: a detail record of the provider, kept as the list of its
  entries. The program only reads such a map: \<^verbatim>\<open>m[k]\<close> is \<^verbatim>\<open>map_of m k\<close>, and \<^verbatim>\<open>None\<close>
  is the nil that Go returns for a key that is not there. A nil map reads like an empty one.
\<close>

type_synonym detail = "(string \<times> json) list"

record searchItem =
  Title :: string
  ImdbID :: string
  Type :: string

text \<open>
  \<^verbatim>\<open>Search\<close> is a slice; \<^verbatim>\<open>None\<close> is the nil slice (field absent or null in the body),
  \<^verbatim>\<open>Some []\<close> an empty non-nil one (\<^verbatim>\<open>"Search": []\<close>). The program tests \<^verbatim>\<open>items == nil\<close>.
\<close>

record searchResult =
  Search :: "searchItem list option"
  Response :: string
  Error :: string

text \<open>
  The values of a float64 as far as \<^verbatim>\<open>>\<close> tells them apart: not-a-number, the two
  infinities and the finite values (both zeros are \<^verbatim>\<open>Finite 0\<close>).
\<close>

datatype float64 = NaN | NegInf | Finite rat | PosInf

text \<open>Go's \<^verbatim>\<open>a > b\<close> on float64: false as soon as one side is NaN.\<close>

fun f64_gt :: "float64 \<Rightarrow> float64 \<Rightarrow> bool" where
  "f64_gt NaN _ = False"
| "f64_gt _ NaN = False"
| "f64_gt NegInf _ = False"
| "f64_gt _ PosInf = False"
| "f64_gt (Finite a) (Finite b) = (b < a)"
| "f64_gt (Finite a) NegInf = True"
| "f64_gt PosInf _ = True"

text \<open>Go's \<^verbatim>\<open>a >= b\<close> on float64.\<close>

fun f64_ge :: "float64 \<Rightarrow> float64 \<Rightarrow> bool" where
  "f64_ge NaN _ = False"
| "f64_ge _ NaN = False"
| "f64_ge _ NegInf = True"
| "f64_ge PosInf _ = True"
| "f64_ge (Finite a) (Finite b) = (b \<le> a)"
| "f64_ge (Finite a) PosInf = False"
| "f64_ge NegInf _ = False"

section \<open>The standard library the program calls\<close>

text \<open>
  What the program takes from Go's standard library and cannot be written out here:
  \<^item> \<^verbatim>\<open>strconv.ParseFloat(r, 64)\<close>, \<^verbatim>\<open>None\<close> when it returns an error;
  \<^item> \<^verbatim>\<open>strings.Map(unicode.ToLower, s)\<close>, which \<^verbatim>\<open>strings.ToLower\<close> calls on a string
    with a byte outside ASCII;
  \<^item> \<^verbatim>\<open>strings.TrimFunc(s, unicode.IsSpace)\<close> and \<^verbatim>\<open>strings.TrimRightFunc(s, unicode.IsSpace)\<close>,
    which \<^verbatim>\<open>strings.TrimSpace\<close> calls when it meets a byte outside ASCII.
\<close>

record lib =
  ParseFloat :: "string \<Rightarrow> float64 option"
  unicodeToLower :: "string \<Rightarrow> string"
  unicodeTrim :: "string \<Rightarrow> string"
  unicodeTrimRight :: "string \<Rightarrow> string"

definition isASCII :: "char \<Rightarrow> bool" where
  "isASCII c = ((of_char c :: nat) < 128)"

definition isUpper :: "char \<Rightarrow> bool" where
  "isUpper c = (65 \<le> (of_char c :: nat) \<and> (of_char c :: nat) \<le> 90)"

definition lowerByte :: "char \<Rightarrow> char" where
  "lowerByte c = (if isUpper c then char_of ((of_char c :: nat) + 32) else c)"

text \<open>\<^verbatim>\<open>strings.ToLower\<close>: bytewise on an ASCII-only string, the Unicode mapping otherwise.\<close>

definition ToLower :: "lib \<Rightarrow> string \<Rightarrow> string" where
  "ToLower L s = (if list_all isASCII s then map lowerByte s else unicodeToLower L s)"

text \<open>\<^verbatim>\<open>strings.Contains(s, substr)\<close>: \<^verbatim>\<open>substr\<close> occurs in \<^verbatim>\<open>s\<close> as a run of bytes.\<close>

fun Contains :: "string \<Rightarrow> string \<Rightarrow> bool" where
  "Contains [] substr = (substr = [])"
| "Contains (c # s) substr = (prefix substr (c # s) \<or> Contains s substr)"

text \<open>\<^verbatim>\<open>strings.Split(s, ",")\<close>: never empty; \<^verbatim>\<open>Split("", ",")\<close> is \<^verbatim>\<open>[""]\<close>.\<close>

fun Split :: "string \<Rightarrow> string list" where
  "Split [] = [[]]"
| "Split (c # s) =
     (if c = CHR '','' then [] # Split s
      else (case Split s of [] \<Rightarrow> [[c]] | w # ws \<Rightarrow> (c # w) # ws))"

definition asciiSpace :: "char \<Rightarrow> bool" where
  "asciiSpace c = (c = CHR 0x09 \<or> c = CHR 0x0A \<or> c = CHR 0x0B \<or> c = CHR 0x0C
                   \<or> c = CHR 0x0D \<or> c = CHR '' '')"

text \<open>
  The second loop of \<^verbatim>\<open>strings.TrimSpace\<close>, on the reversed rest \<^verbatim>\<open>s[start:]\<close>: it
  walks back from the end; the result is reversed too.
\<close>

fun trimStop :: "lib \<Rightarrow> string \<Rightarrow> string" where
  "trimStop L [] = []"
| "trimStop L (c # r) =
     (if \<not> isASCII c then rev (unicodeTrimRight L (rev (c # r)))
      else if asciiSpace c then trimStop L r
      else c # r)"

text \<open>The first loop of \<^verbatim>\<open>strings.TrimSpace\<close>, then the second.\<close>

fun TrimSpace :: "lib \<Rightarrow> string \<Rightarrow> string" where
  "TrimSpace L [] = []"
| "TrimSpace L (c # s) =
     (if \<not> isASCII c then unicodeTrim L (c # s)
      else if asciiSpace c then TrimSpace L s
      else rev (trimStop L (rev (c # s))))"

text \<open>
  The order in which the runtime hands out the entries of a map in a \<^verbatim>\<open>range\<close> loop,
  and the order in which the unstable \<^verbatim>\<open>sort.Slice\<close> leaves elements that compare equal,
  are not fixed by the language. A list of numbers stands for the runtime's choice:
  \<^verbatim>\<open>pick\<close> takes the elements out one by one at the chosen positions, so it returns
  a rearrangement of its argument, and every rearrangement for some choice.
\<close>

fun pick :: "nat list \<Rightarrow> 'a list \<Rightarrow> 'a list" where
  "pick [] xs = xs"
| "pick (c # cs) [] = []"
| "pick (c # cs) (x # xs) =
     (let i = c mod length (x # xs)
      in (x # xs) ! i # pick cs (take i (x # xs) @ drop (Suc i) (x # xs)))"

text \<open>
  \<^verbatim>\<open>sort.Slice\<close> on short slices is this insertion sort: element \<^verbatim>\<open>i\<close> moves left while
  \<^verbatim>\<open>less\<close> holds between it and its left neighbour. \<^verbatim>\<open>insertLeft\<close> gets the sorted
  prefix reversed (nearest neighbour first).
\<close>

fun insertLeft :: "('a \<Rightarrow> 'a \<Rightarrow> bool) \<Rightarrow> 'a \<Rightarrow> 'a list \<Rightarrow> 'a list" where
  "insertLeft lt x [] = [x]"
| "insertLeft lt x (y # rp) = (if lt x y then y # insertLeft lt x rp else x # y # rp)"

definition insertionSort :: "('a \<Rightarrow> 'a \<Rightarrow> bool) \<Rightarrow> 'a list \<Rightarrow> 'a list" where
  "insertionSort lt xs = rev (foldl (\<lambda>rp x. insertLeft lt x rp) [] xs)"

text \<open>
  \<^verbatim>\<open>less\<close> is a strict weak order on the elements of the slice: irreflexive, transitive,
  and so is being incomparable.
\<close>

definition strictWeakOrder :: "('a \<Rightarrow> 'a \<Rightarrow> bool) \<Rightarrow> 'a list \<Rightarrow> bool" where
  "strictWeakOrder lt xs =
     (list_all (\<lambda>a. \<not> lt a a) xs
      \<and> list_all (\<lambda>a. list_all (\<lambda>b. list_all (\<lambda>c.
            (if lt a b \<and> lt b c then lt a c else True)
            \<and> (if \<not> lt a b \<and> \<not> lt b a \<and> \<not> lt b c \<and> \<not> lt c b
                then \<not> lt a c \<and> \<not> lt c a else True)) xs) xs) xs)"

text \<open>The slice is in order: no element is less than one before it.\<close>

definition inOrder :: "('a \<Rightarrow> 'a \<Rightarrow> bool) \<Rightarrow> 'a list \<Rightarrow> bool" where
  "inOrder lt ys = sorted_wrt (\<lambda>a b. \<not> lt b a) ys"

text \<open>
  \<^verbatim>\<open>sort.Slice(list, less)\<close> is not stable, and its documentation asks that \<^verbatim>\<open>less\<close> be
  a strict weak order on the elements. Then it leaves the slice in order; which
  rearrangement, among those in order, is the runtime's choice. When \<^verbatim>\<open>less\<close> is no
  such order (a NaN among the keys) no order is promised and any rearrangement may come
  out. The choice \<^verbatim>\<open>cs\<close> proposes the rearrangement; where the proposal is not in order
  although the result has to be, the result is the proposal sorted by insertion.
\<close>

definition sortSlice :: "nat list \<Rightarrow> ('a \<Rightarrow> 'a \<Rightarrow> bool) \<Rightarrow> 'a list \<Rightarrow> 'a list" where
  "sortSlice cs lt xs =
     (if inOrder lt (pick cs xs) then pick cs xs
      else if strictWeakOrder lt xs then insertionSort lt (pick cs xs)
      else pick cs xs)"

section \<open>The provider and the runtime\<close>

text \<open>
  Everything outside the program. \<^verbatim>\<open>fetchJSON(omdbURL(...), &out)\<close> is called with three
  shapes of query: \<^verbatim>\<open>t\<close> (detail by title), \<^verbatim>\<open>i\<close> (detail by id) and \<^verbatim>\<open>s\<close>, \<^verbatim>\<open>page\<close>
  (keyword search). Each returns \<^verbatim>\<open>None\<close> for an error (transport failure, status other
  than 200, body that does not decode) and the decoded body otherwise. The provider may
  answer anything, and differently each time: \<^verbatim>\<open>'s\<close> is the state of the world, which
  every call may change. \<^verbatim>\<open>runtimeChoice\<close> is the runtime's next choice of an order
  (see \<^verbatim>\<open>pick\<close>).
\<close>

record 's world =
  fetchTitle :: "string \<Rightarrow> 's \<Rightarrow> detail option \<times> 's"
  fetchID :: "string \<Rightarrow> 's \<Rightarrow> detail option \<times> 's"
  fetchSearch :: "string \<Rightarrow> int \<Rightarrow> 's \<Rightarrow> searchResult option \<times> 's"
  runtimeChoice :: "'s \<Rightarrow> nat list \<times> 's"

section \<open>The program\<close>

text \<open>\<^verbatim>\<open>searchByKeyword\<close>: nil on an error or on \<^verbatim>\<open>Response == "False"\<close>, else the Search slice.\<close>

definition searchByKeyword ::
  "'s world \<Rightarrow> string \<Rightarrow> int \<Rightarrow> 's \<Rightarrow> searchItem list option \<times> 's" where
  "searchByKeyword W keyword page s =
     (case fetchSearch W keyword page s of
        (None, s') \<Rightarrow> (None, s')
      | (Some sr, s') \<Rightarrow> (if Response sr = ''False'' then None else Search sr, s'))"

text \<open>\<^verbatim>\<open>getDetailByID\<close>: \<^verbatim>\<open>None\<close> is the error \<^verbatim>\<open>not found\<close>.\<close>

definition getDetailByID :: "'s world \<Rightarrow> string \<Rightarrow> 's \<Rightarrow> detail option \<times> 's" where
  "getDetailByID W i s =
     (case fetchID W i s of
        (None, s') \<Rightarrow> (None, s')
      | (Some md, s') \<Rightarrow>
          (if map_of md ''Response'' = Some (JString ''False'') then None else Some md, s'))"

text \<open>The loop over the hits of one page in \<^verbatim>\<open>getDetailByTitle\<close>.\<close>

fun firstDetail :: "'s world \<Rightarrow> searchItem list \<Rightarrow> 's \<Rightarrow> detail option \<times> 's" where
  "firstDetail W [] s = (None, s)"
| "firstDetail W (it # items) s =
     (if ImdbID it = [] then firstDetail W items s
      else (case getDetailByID W (ImdbID it) s of
              (Some m, s') \<Rightarrow> (Some m, s')
            | (None, s') \<Rightarrow> firstDetail W items s'))"

text \<open>The loop over the pages in \<^verbatim>\<open>getDetailByTitle\<close>.\<close>

fun searchPages :: "'s world \<Rightarrow> string \<Rightarrow> int list \<Rightarrow> 's \<Rightarrow> detail option \<times> 's" where
  "searchPages W title [] s = (None, s)"
| "searchPages W title (p # ps) s =
     (case searchByKeyword W title p s of
        (None, s') \<Rightarrow> searchPages W title ps s'
      | (Some items, s') \<Rightarrow>
          (case firstDetail W items s' of
             (Some m, s'') \<Rightarrow> (Some m, s'')
           | (None, s'') \<Rightarrow> searchPages W title ps s''))"

definition getDetailByTitle :: "'s world \<Rightarrow> string \<Rightarrow> 's \<Rightarrow> detail option \<times> 's" where
  "getDetailByTitle W title s =
     (case fetchTitle W title s of
        (Some md, s') \<Rightarrow>
          (if map_of md ''Response'' = Some (JString ''True'') then (Some md, s')
           else searchPages W title [1, 2] s')
      | (None, s') \<Rightarrow> searchPages W title [1, 2] s')"

text \<open>The test of line 179: the Genre field is a string that contains the filter, both lowered.\<close>

definition genreMatch :: "lib \<Rightarrow> string \<Rightarrow> detail \<Rightarrow> bool" where
  "genreMatch L gen md =
     (case map_of md ''Genre'' of
        Some (JString g) \<Rightarrow> Contains (ToLower L g) (ToLower L gen)
      | _ \<Rightarrow> False)"

definition kw :: "string list" where
  "kw = [''the'', ''a'', ''man'', ''love'', ''star'', ''dark'', ''king'', ''matrix'', ''avengers'']"

text \<open>
  The map \<^verbatim>\<open>found\<close> of \<^verbatim>\<open>collectByGenre\<close> is kept as the list of its entries in the order
  they were added: the code looks a key up, adds an entry under a key that is not there,
  and takes \<^verbatim>\<open>len\<close>.
\<close>

type_synonym candidates = "(string \<times> detail) list"

text \<open>The inner loop of \<^verbatim>\<open>collectByGenre\<close>, over the hits of one keyword.\<close>

fun scanItems ::
  "lib \<Rightarrow> 's world \<Rightarrow> string \<Rightarrow> int \<Rightarrow> searchItem list \<Rightarrow> candidates \<Rightarrow> 's \<Rightarrow> candidates \<times> 's" where
  "scanItems L W gen limit [] found s = (found, s)"
| "scanItems L W gen limit (it # items) found s =
     (if ImdbID it = [] then scanItems L W gen limit items found s
      else if ImdbID it \<in> fst ` set found then scanItems L W gen limit items found s
      else (case getDetailByID W (ImdbID it) s of
              (None, s') \<Rightarrow> scanItems L W gen limit items found s'
            | (Some md, s') \<Rightarrow>
                (if genreMatch L gen md
                 then (if limit \<le> int (length (found @ [(ImdbID it, md)]))
                       then (found @ [(ImdbID it, md)], s')
                       else scanItems L W gen limit items (found @ [(ImdbID it, md)]) s')
                 else scanItems L W gen limit items found s')))"

text \<open>The outer loop of \<^verbatim>\<open>collectByGenre\<close>, over the keywords.\<close>

fun scanKeywords ::
  "lib \<Rightarrow> 's world \<Rightarrow> string \<Rightarrow> int \<Rightarrow> string list \<Rightarrow> candidates \<Rightarrow> 's \<Rightarrow> candidates \<times> 's" where
  "scanKeywords L W gen limit [] found s = (found, s)"
| "scanKeywords L W gen limit (k # ks) found s =
     (case searchByKeyword W k 1 s of
        (None, s') \<Rightarrow> scanKeywords L W gen limit ks found s'
      | (Some items, s') \<Rightarrow>
          (case scanItems L W gen limit items found s' of
             (found', s'') \<Rightarrow>
               (if limit \<le> int (length found') then (found', s'')
                else scanKeywords L W gen limit ks found' s'')))"

text \<open>The map \<^verbatim>\<open>found\<close> when both loops are over.\<close>

definition collectFound :: "lib \<Rightarrow> 's world \<Rightarrow> string \<Rightarrow> int \<Rightarrow> 's \<Rightarrow> candidates \<times> 's" where
  "collectFound L W gen limit s = scanKeywords L W gen limit kw [] s"

text \<open>\<^verbatim>\<open>collectByGenre\<close>: the values of \<^verbatim>\<open>found\<close>, in the order the \<^verbatim>\<open>range\<close> loop meets them.\<close>

definition collectByGenre :: "lib \<Rightarrow> 's world \<Rightarrow> string \<Rightarrow> int \<Rightarrow> 's \<Rightarrow> detail list \<times> 's" where
  "collectByGenre L W gen limit s =
     (case collectFound L W gen limit s of
        (found, s') \<Rightarrow>
          (case runtimeChoice W s' of (cs, s'') \<Rightarrow> (pick cs (map snd found), s'')))"

definition ratingVal :: "lib \<Rightarrow> detail \<Rightarrow> float64" where
  "ratingVal L m =
     (case map_of m ''imdbRating'' of
        Some (JString r) \<Rightarrow>
          (if r \<noteq> ''N/A'' \<and> r \<noteq> []
           then (case ParseFloat L r of Some f \<Rightarrow> f | None \<Rightarrow> Finite 0)
           else Finite 0)
      | _ \<Rightarrow> Finite 0)"

text \<open>The \<^verbatim>\<open>less\<close> that \<^verbatim>\<open>topByRating\<close> hands to \<^verbatim>\<open>sort.Slice\<close>, on the elements.\<close>

definition ratingAbove :: "lib \<Rightarrow> detail \<Rightarrow> detail \<Rightarrow> bool" where
  "ratingAbove L a b = f64_gt (ratingVal L a) (ratingVal L b)"

text \<open>
  \<^verbatim>\<open>topByRating\<close>: \<^verbatim>\<open>cs\<close> is the runtime's choice in \<^verbatim>\<open>sort.Slice\<close>. \<^verbatim>\<open>None\<close> is the panic of
  \<^verbatim>\<open>list[:n]\<close> for a negative \<^verbatim>\<open>n\<close>.
\<close>

definition topByRating :: "lib \<Rightarrow> nat list \<Rightarrow> detail list \<Rightarrow> int \<Rightarrow> detail list option" where
  "topByRating L cs list n =
     (let sorted = sortSlice cs (ratingAbove L) list
      in if n < int (length sorted)
         then (if n < 0 then None else Some (take (nat n) sorted))
         else Some sorted)"

definition perLevel :: int where
  "perLevel = 20"

text \<open>
  The loop over \<^verbatim>\<open>cands\<close>, the same in the three phases of \<^verbatim>\<open>recommendHandler\<close>: the set
  \<^verbatim>\<open>seen\<close> and the slice \<^verbatim>\<open>result\<close> go in and come out.
\<close>

fun admit :: "detail list \<Rightarrow> string set \<times> detail list \<Rightarrow> string set \<times> detail list" where
  "admit [] (seen, result) = (seen, result)"
| "admit (m # cands) (seen, result) =
     (case map_of m ''imdbID'' of
        Some (JString i) \<Rightarrow>
          (if i \<notin> seen
           then (if perLevel \<le> int (length (result @ [m]))
                 then (insert i seen, result @ [m])
                 else admit cands (insert i seen, result @ [m]))
           else admit cands (seen, result))
      | _ \<Rightarrow> admit cands (seen, result))"

text \<open>
  The loop over the comma-separated terms of one field, the same in the three phases.
  \<^verbatim>\<open>None\<close> is a panic (of \<^verbatim>\<open>topByRating\<close>).
\<close>

fun phaseLoop ::
  "lib \<Rightarrow> 's world \<Rightarrow> string list \<Rightarrow> string set \<times> detail list \<Rightarrow> 's
     \<Rightarrow> (string set \<times> detail list) option \<times> 's" where
  "phaseLoop L W [] acc s = (Some acc, s)"
| "phaseLoop L W (t # ts) acc s =
     (case collectByGenre L W (TrimSpace L t) perLevel s of
        (list, s') \<Rightarrow>
          (case runtimeChoice W s' of
             (cs, s'') \<Rightarrow>
               (case topByRating L cs list perLevel of
                  None \<Rightarrow> (None, s'')
                | Some cands \<Rightarrow>
                    (if perLevel \<le> int (length (snd (admit cands acc)))
                     then (Some (admit cands acc), s'')
                     else phaseLoop L W ts (admit cands acc) s''))))"

text \<open>One phase: nothing happens unless the field of the seed is a string.\<close>

definition fieldPhase ::
  "lib \<Rightarrow> 's world \<Rightarrow> detail \<Rightarrow> string \<Rightarrow> string set \<times> detail list \<Rightarrow> 's
     \<Rightarrow> (string set \<times> detail list) option \<times> 's" where
  "fieldPhase L W seed field acc s =
     (case map_of seed field of
        Some (JString g) \<Rightarrow> phaseLoop L W (Split g) acc s
      | _ \<Rightarrow> (Some acc, s))"

text \<open>The director and the actor phase are entered only while the result is short.\<close>

definition guardedPhase ::
  "lib \<Rightarrow> 's world \<Rightarrow> detail \<Rightarrow> string \<Rightarrow> string set \<times> detail list \<Rightarrow> 's
     \<Rightarrow> (string set \<times> detail list) option \<times> 's" where
  "guardedPhase L W seed field acc s =
     (if int (length (snd acc)) < perLevel then fieldPhase L W seed field acc s
      else (Some acc, s))"

text \<open>The set \<^verbatim>\<open>seen\<close> at the start: the seed's own id when it is a non-empty string.\<close>

definition seedSeen :: "detail \<Rightarrow> string set" where
  "seedSeen seed =
     (case map_of seed ''imdbID'' of
        Some (JString i) \<Rightarrow> (if i \<noteq> [] then {i} else {})
      | _ \<Rightarrow> {})"

text \<open>The three phases and the final cut, from a resolved seed.\<close>

definition phases :: "lib \<Rightarrow> 's world \<Rightarrow> detail \<Rightarrow> 's \<Rightarrow> detail list option \<times> 's" where
  "phases L W seed s =
     (case fieldPhase L W seed ''Genre'' (seedSeen seed, []) s of
        (None, s1) \<Rightarrow> (None, s1)
      | (Some acc1, s1) \<Rightarrow>
          (case guardedPhase L W seed ''Director'' acc1 s1 of
             (None, s2) \<Rightarrow> (None, s2)
           | (Some acc2, s2) \<Rightarrow>
               (case guardedPhase L W seed ''Actors'' acc2 s2 of
                  (None, s3) \<Rightarrow> (None, s3)
                | (Some acc3, s3) \<Rightarrow>
                    (Some (if perLevel < int (length (snd acc3))
                           then take (nat perLevel) (snd acc3)
                           else snd acc3), s3))))"

text \<open>
  An entry of the response: the seven keys are always there, with the record's value or
  nil (JSON null) where the record has none.
\<close>

definition entry :: "detail \<Rightarrow> detail" where
  "entry m =
     map (\<lambda>k. (k, case map_of m k of Some v \<Rightarrow> v | None \<Rightarrow> JNull))
       [''Title'', ''Year'', ''imdbID'', ''Genre'', ''Director'', ''Actors'', ''imdbRating'']"

datatype response =
    BadRequest
  | NotFound
  | Panic
  | Recommendations "json option" "detail list"

text \<open>\<^verbatim>\<open>recommendHandler\<close> from line 241 on: the favorite title is there.\<close>

definition recommend :: "lib \<Rightarrow> 's world \<Rightarrow> string \<Rightarrow> 's \<Rightarrow> response \<times> 's" where
  "recommend L W fav s =
     (case getDetailByTitle W fav s of
        (None, s0) \<Rightarrow> (NotFound, s0)
      | (Some seed, s0) \<Rightarrow>
          (case phases L W seed s0 of
             (None, s') \<Rightarrow> (Panic, s')
           | (Some result, s') \<Rightarrow> (Recommendations (map_of seed ''Title'') (map entry result), s')))"

definition recommendHandler :: "lib \<Rightarrow> 's world \<Rightarrow> string \<Rightarrow> 's \<Rightarrow> response \<times> 's" where
  "recommendHandler L W fav s = (if fav = [] then (BadRequest, s) else recommend L W fav s)"

section \<open>Vocabulary of the statements\<close>

text \<open>The imdbID fields of a list of records, in order.\<close>

definition imdbIDs :: "detail list \<Rightarrow> json option list" where
  "imdbIDs ms = map (\<lambda>m. map_of m ''imdbID'') ms"

text \<open>The recommendation list of a response (empty when the response has none).\<close>

definition recommendations :: "response \<Rightarrow> detail list" where
  "recommendations r = (case r of Recommendations t recs \<Rightarrow> recs | _ \<Rightarrow> [])"

text \<open>
  What the three phases keep true of \<^verbatim>\<open>seen\<close> and \<^verbatim>\<open>result\<close>, with \<^verbatim>\<open>S0\<close> the set
  \<^verbatim>\<open>seen\<close> started from: \<^verbatim>\<open>seen\<close> only grows, the ids in \<^verbatim>\<open>result\<close> are strings, pairwise
  different, all in \<^verbatim>\<open>seen\<close> and none in \<^verbatim>\<open>S0\<close>.
\<close>

definition accInv :: "string set \<Rightarrow> string set \<times> detail list \<Rightarrow> bool" where
  "accInv S0 acc =
     (S0 \<subseteq> fst acc \<and> distinct (imdbIDs (snd acc))
      \<and> (\<forall>m\<in>set (snd acc). \<exists>i. map_of m ''imdbID'' = Some (JString i) \<and> i \<in> fst acc \<and> i \<notin> S0))"

text \<open>
  The record \<^verbatim>\<open>m\<close> passes the test of line 179 for one of the comma-separated, trimmed
  terms of the seed's field.
\<close>

definition fieldMatch :: "lib \<Rightarrow> detail \<Rightarrow> string \<Rightarrow> detail \<Rightarrow> bool" where
  "fieldMatch L seed field m =
     (\<exists>g. map_of seed field = Some (JString g)
        \<and> (\<exists>t\<in>set (Split g). genreMatch L (TrimSpace L t) m))"

text \<open>
  The Genre field of \<^verbatim>\<open>m\<close> is a string that contains the filter as a substring, case
  ignored: the lowered filter is a run of consecutive bytes of the lowered field.
\<close>

definition genreContains :: "lib \<Rightarrow> string \<Rightarrow> detail \<Rightarrow> bool" where
  "genreContains L flt m =
     (case map_of m ''Genre'' of
        Some (JString x) \<Rightarrow> sublist (ToLower L flt) (ToLower L x)
      | _ \<Rightarrow> False)"

text \<open>The Genre field of \<^verbatim>\<open>m\<close> is a string, whatever it says.\<close>

definition genreIsString :: "detail \<Rightarrow> bool" where
  "genreIsString m = (case map_of m ''Genre'' of Some (JString x) \<Rightarrow> True | _ \<Rightarrow> False)"

text \<open>
  A provider whose answers to a fetch by id and to a search do not depend on when they
  are asked: they are given by the two tables.
\<close>

definition answersBy ::
  "'s world \<Rightarrow> (string \<Rightarrow> detail option) \<Rightarrow> (string \<Rightarrow> int \<Rightarrow> searchResult option) \<Rightarrow> bool" where
  "answersBy W byID bySearch =
     ((\<forall>i t. fst (fetchID W i t) = byID i) \<and> (\<forall>k p t. fst (fetchSearch W k p t) = bySearch k p))"

text \<open>The ids of the hits of a search answer, in order; none when the search fails.\<close>

definition hitIDs :: "searchResult option \<Rightarrow> string list" where
  "hitIDs r =
     (case r of
        None \<Rightarrow> []
      | Some sr \<Rightarrow>
          (if Response sr = ''False'' then []
           else (case Search sr of None \<Rightarrow> [] | Some items \<Rightarrow> map ImdbID items)))"

text \<open>A list without the repetitions: each element where it first occurs.\<close>

definition firstSeen :: "'a list \<Rightarrow> 'a list" where
  "firstSeen xs = rev (remdups (rev xs))"

text \<open>
  What becomes of a hit with id \<^verbatim>\<open>i\<close> when records are admitted by \<^verbatim>\<open>P\<close>: the entry
  \<^verbatim>\<open>(i, md)\<close> when the id is not empty, the fetch by id succeeds with a record \<^verbatim>\<open>md\<close> whose
  Response is not \<^verbatim>\<open>"False"\<close>, and \<^verbatim>\<open>P md\<close>; nothing otherwise.
\<close>

definition admission :: "(detail \<Rightarrow> bool) \<Rightarrow> (string \<Rightarrow> detail option) \<Rightarrow> string \<Rightarrow> candidates" where
  "admission P byID i =
     (if i = [] then []
      else (case byID i of
              None \<Rightarrow> []
            | Some md \<Rightarrow>
                (if map_of md ''Response'' = Some (JString ''False'') then []
                 else if P md then [(i, md)] else [])))"

text \<open>
  The candidate set one expects of the collector from such a provider: the hits of the
  page-1 searches for the keywords, in order and without repetitions, each fetched and
  admitted by \<^verbatim>\<open>P\<close>, up to the limit.
\<close>

definition expectedFound ::
  "(detail \<Rightarrow> bool) \<Rightarrow> (string \<Rightarrow> detail option) \<Rightarrow> (string \<Rightarrow> int \<Rightarrow> searchResult option)
     \<Rightarrow> int \<Rightarrow> candidates" where
  "expectedFound P byID bySearch limit =
     take (nat limit)
       (concat (map (admission P byID) (firstSeen (concat (map (\<lambda>k. hitIDs (bySearch k 1)) kw)))))"

section \<open>Example providers\<close>

text \<open>
  \<^verbatim>\<open>strconv.ParseFloat\<close> on the strings the examples use: it reads \<^verbatim>\<open>"NaN"\<close> as a NaN,
  the decimals below as the value they denote exactly, and fails on the other strings of
  the examples (\<^verbatim>\<open>"abc"\<close>). The examples hold no byte outside ASCII, so the Unicode
  functions are never called.
\<close>

definition exampleParseFloat :: "string \<Rightarrow> float64 option" where
  "exampleParseFloat r =
     (if r = ''NaN'' then Some NaN
      else if r = ''1'' then Some (Finite 1)
      else if r = ''2'' then Some (Finite 2)
      else if r = ''9'' then Some (Finite 9)
      else if r = ''8.5'' then Some (Finite (17 / 2))
      else None)"

definition exampleLib :: lib where
  "exampleLib = \<lparr>ParseFloat = exampleParseFloat, unicodeToLower = (\<lambda>s. s),
                 unicodeTrim = (\<lambda>s. s), unicodeTrimRight = (\<lambda>s. s)\<rparr>"

definition hit :: "string \<Rightarrow> searchItem" where
  "hit i = \<lparr>Title = ''some title'', ImdbID = i, Type = ''movie''\<rparr>"

definition hits :: "string list \<Rightarrow> searchResult" where
  "hits ids = \<lparr>Search = Some (map hit ids), Response = ''True'', Error = []\<rparr>"

definition noHits :: searchResult where
  "noHits = \<lparr>Search = None, Response = ''False'', Error = ''Movie not found!''\<rparr>"

definition movie :: "string \<Rightarrow> string \<Rightarrow> string \<Rightarrow> detail" where
  "movie i g r = [(''imdbID'', JString i), (''Genre'', JString g), (''imdbRating'', JString r),
                  (''Response'', JString ''True'')]"

text \<open>
  A provider that answers by three fixed tables; the state of the world counts the
  requests made so far. The runtime never reorders.
\<close>

definition countingWorld ::
  "(string \<Rightarrow> detail option) \<Rightarrow> (string \<Rightarrow> detail option)
     \<Rightarrow> (string \<Rightarrow> int \<Rightarrow> searchResult option) \<Rightarrow> nat world" where
  "countingWorld byTitle byID bySearch =
     \<lparr>fetchTitle = (\<lambda>t n. (byTitle t, Suc n)),
      fetchID = (\<lambda>i n. (byID i, Suc n)),
      fetchSearch = (\<lambda>k p n. (bySearch k p, Suc n)),
      runtimeChoice = (\<lambda>n. ([], n))\<rparr>"

definition heat :: detail where
  "heat = [(''Title'', JString ''Heat''), (''imdbID'', JString ''tt0''),
           (''Genre'', JString ''Crime, Action''), (''Director'', JString ''Michael Mann''),
           (''Actors'', JString ''Al Pacino, Robert De Niro''), (''imdbRating'', JString ''9''),
           (''Response'', JString ''True'')]"

text \<open>A favorite whose director and actor happen to be named like genres.\<close>

definition crash :: detail where
  "crash = [(''Title'', JString ''Crash''), (''imdbID'', JString ''tt7''),
            (''Genre'', JString ''Action''), (''Director'', JString ''Drama''),
            (''Actors'', JString ''Crime''), (''Response'', JString ''True'')]"

text \<open>A small catalog: one keyword finds three titles, one hit twice and one without id.\<close>

definition catalog :: "nat world" where
  "catalog = countingWorld
     (\<lambda>t. if t = ''Heat'' then Some heat
          else if t = ''Crash'' then Some crash
          else Some [(''Response'', JString ''False'')])
     (\<lambda>i. if i = ''tt0'' then Some heat
          else if i = ''tt1'' then Some (movie ''tt1'' ''Action, Drama'' ''8.5'')
          else if i = ''tt2'' then Some (movie ''tt2'' ''Crime'' ''N/A'')
          else None)
     (\<lambda>k p. if k = ''the'' \<and> p = 1 then Some (hits [''tt0'', ''tt1'', [], ''tt2'', ''tt1''])
            else Some noHits)"

definition manyIDs :: "string list" where
  "manyIDs = map (\<lambda>c. [CHR ''t'', CHR ''t'', c]) ''abcdefghijklmnopqrstuvwxy''"

definition seedA :: detail where
  "seedA = [(''Title'', JString ''A''), (''imdbID'', JString ''s1''), (''Genre'', JString ''Action''),
            (''Director'', JString ''Ridley Scott''), (''Response'', JString ''True'')]"

definition seedB :: detail where
  "seedB = [(''Title'', JString ''B''), (''imdbID'', JString ''s2''), (''Genre'', JString ''Western''),
            (''Director'', JString ''Action''), (''Response'', JString ''True'')]"

text \<open>A catalog of 25 action movies, and two favorites.\<close>

definition bigCatalog :: "nat world" where
  "bigCatalog = countingWorld
     (\<lambda>t. if t = ''A'' then Some seedA else if t = ''B'' then Some seedB else None)
     (\<lambda>i. if i \<in> set manyIDs then Some (movie i ''Action'' ''N/A'') else None)
     (\<lambda>k p. if k = ''the'' \<and> p = 1 then Some (hits manyIDs) else Some noHits)"

definition first20 :: "detail list" where
  "first20 = map (\<lambda>i. movie i ''Action'' ''N/A'') (take 20 manyIDs)"

text \<open>A provider that answers every request by id with the same record.\<close>

definition echoWorld :: "nat world" where
  "echoWorld = countingWorld
     (\<lambda>t. None)
     (\<lambda>i. Some (movie ''tt9'' ''Action'' ''8.5''))
     (\<lambda>k p. if k = ''the'' \<and> p = 1 then Some (hits [''tt1'', ''tt2'']) else Some noHits)"

text \<open>A record without imdbID whose Response is neither \<^verbatim>\<open>"True"\<close> nor \<^verbatim>\<open>"False"\<close>.\<close>

definition oddRecord :: detail where
  "oddRecord = [(''Genre'', JString ''Action''), (''Response'', JString ''Maybe'')]"

definition oddWorld :: "nat world" where
  "oddWorld = countingWorld
     (\<lambda>t. None)
     (\<lambda>i. Some oddRecord)
     (\<lambda>k p. if k = ''the'' \<and> p = 1 then Some (hits [''tt1'']) else Some noHits)"

text \<open>A seed and a candidate whose imdbID is the empty string.\<close>

definition blankSeed :: detail where
  "blankSeed = [(''Title'', JString ''Blank''), (''imdbID'', JString []),
                (''Genre'', JString ''Action''), (''Response'', JString ''True'')]"

definition blankWorld :: "nat world" where
  "blankWorld = countingWorld
     (\<lambda>t. Some blankSeed)
     (\<lambda>i. Some (movie [] ''Action'' ''N/A''))
     (\<lambda>k p. if k = ''the'' \<and> p = 1 then Some (hits [''tt1'']) else Some noHits)"

text \<open>A seed with none of the three fields, from a provider whose other requests fail.\<close>

definition bareSeed :: detail where
  "bareSeed = [(''Title'', JString ''Bare''), (''Response'', JString ''True'')]"

definition bareWorld :: "nat world" where
  "bareWorld = countingWorld
     (\<lambda>t. if t = ''Bare'' then Some bareSeed else if t = ''Heat'' then Some heat else None)
     (\<lambda>i. None)
     (\<lambda>k p. None)"

text \<open>
  A second provider, given by three named tables. Of its favorites, one has the empty
  string as Genre and neither Director nor Actors, one has a Director only. Of its
  records, one has no Genre field. One hit has no id, one is met twice, one cannot be
  fetched.
\<close>

definition untitled :: detail where
  "untitled = [(''Title'', JString ''Untitled''), (''imdbID'', JString ''tt8''),
               (''Genre'', JString []), (''Response'', JString ''True'')]"

definition directed :: detail where
  "directed = [(''Title'', JString ''Directed''), (''imdbID'', JString ''tt9''),
               (''Director'', JString ''Drama''), (''Response'', JString ''True'')]"

definition plain :: detail where
  "plain = [(''imdbID'', JString ''tt3''), (''Director'', JString ''Drama''),
            (''Actors'', JString ''Crime''), (''imdbRating'', JString ''2''),
            (''Response'', JString ''True'')]"

definition shelfByTitle :: "string \<Rightarrow> detail option" where
  "shelfByTitle t =
     (if t = ''Crash'' then Some crash
      else if t = ''Untitled'' then Some untitled
      else if t = ''Directed'' then Some directed
      else None)"

definition shelfByID :: "string \<Rightarrow> detail option" where
  "shelfByID i =
     (if i = ''tt0'' then Some heat
      else if i = ''tt1'' then Some (movie ''tt1'' ''Action, Drama'' ''8.5'')
      else if i = ''tt2'' then Some (movie ''tt2'' ''Crime'' ''N/A'')
      else if i = ''tt3'' then Some plain
      else None)"

definition shelfBySearch :: "string \<Rightarrow> int \<Rightarrow> searchResult option" where
  "shelfBySearch k p =
     (if k = ''the'' \<and> p = 1 then Some (hits [''tt0'', ''tt1'', [], ''tt3'', ''tt1''])
      else if k = ''man'' \<and> p = 1 then Some (hits [''tt4'', ''tt2'', ''tt0''])
      else Some noHits)"

definition shelf :: "nat world" where
  "shelf = countingWorld shelfByTitle shelfByID shelfBySearch"

section \<open>Lemmas\<close>

subsection \<open>Rearrangements and the sort\<close>

lemma mset_without_nth:
  assumes "i < length l"
  shows "add_mset (l ! i) (mset (take i l @ drop (Suc i) l)) = mset l"
proof -
  have "mset l = mset (take i l @ l ! i # drop (Suc i) l)"
    using id_take_nth_drop [OF assms] by simp
  then show ?thesis by simp
qed

lemma mset_pick: "mset (pick cs xs) = mset xs"
proof (induction cs xs rule: pick.induct)
  case (3 c cs x xs)
  define l where "l = x # xs"
  define i where "i = c mod length l"
  have i: "i < length l" by (simp add: i_def l_def)
  have "pick (c # cs) (x # xs) = l ! i # pick cs (take i l @ drop (Suc i) l)"
    by (simp only: pick.simps Let_def l_def i_def)
  moreover have "mset (pick cs (take i l @ drop (Suc i) l)) = mset (take i l @ drop (Suc i) l)"
    using 3 by (simp only: l_def i_def)
  ultimately have "mset (pick (c # cs) (x # xs)) = mset l"
    using mset_without_nth [OF i] by simp
  then show ?case by (simp add: l_def)
qed simp_all

text \<open>Every rearrangement is the result of some choice.\<close>

lemma pick_complete: "mset ys = mset xs \<Longrightarrow> \<exists>cs. pick cs xs = ys"
proof (induction ys arbitrary: xs)
  case Nil
  then have "pick [] xs = []" by simp
  then show ?case by blast
next
  case (Cons y ys)
  then have "y \<in> set xs" by (metis list.set_intros(1) set_mset_mset)
  then obtain i where i: "i < length xs" "xs ! i = y" by (auto simp: in_set_conv_nth)
  then obtain x xs' where xs: "xs = x # xs'" by (cases xs) auto
  have "add_mset y (mset (take i xs @ drop (Suc i) xs)) = mset xs"
    using mset_without_nth [OF i(1)] i(2) by simp
  then have "add_mset y (mset ys) = add_mset y (mset (take i xs @ drop (Suc i) xs))"
    using Cons.prems by (simp only: mset.simps)
  then have "mset ys = mset (take i xs @ drop (Suc i) xs)" by (simp only: add_mset_add_mset_same_iff)
  from Cons.IH [OF this] obtain cs where cs: "pick cs (take i xs @ drop (Suc i) xs) = ys" by blast
  have "i mod length xs = i" using i by simp
  then have "pick (i # cs) xs = xs ! i # pick cs (take i xs @ drop (Suc i) xs)"
    unfolding xs by (simp only: pick.simps Let_def)
  then show ?case using cs i by auto
qed

lemma mset_insertLeft: "mset (insertLeft lt x rp) = add_mset x (mset rp)"
  by (induction rp) auto

lemma mset_foldl_insertLeft:
  "mset (foldl (\<lambda>rp x. insertLeft lt x rp) acc xs) = mset acc + mset xs"
  by (induction xs arbitrary: acc) (auto simp: mset_insertLeft)

lemma mset_insertionSort: "mset (insertionSort lt xs) = mset xs"
  by (simp add: insertionSort_def mset_foldl_insertLeft)

lemma mset_sortSlice: "mset (sortSlice cs lt xs) = mset xs"
  by (simp add: sortSlice_def mset_insertionSort mset_pick)

text \<open>Away from NaN, \<^verbatim>\<open>>\<close> and \<^verbatim>\<open>>=\<close> are a linear order.\<close>

lemma f64_gt_iff_not_ge: "a \<noteq> NaN \<Longrightarrow> b \<noteq> NaN \<Longrightarrow> f64_gt a b \<longleftrightarrow> \<not> f64_ge b a"
  by (cases a; cases b) auto

lemma f64_ge_trans: "f64_ge a b \<Longrightarrow> f64_ge b c \<Longrightarrow> f64_ge a c"
  by (cases a; cases b; cases c) auto

lemma f64_ge_total: "a \<noteq> NaN \<Longrightarrow> b \<noteq> NaN \<Longrightarrow> f64_ge a b \<or> f64_ge b a"
  by (cases a; cases b) auto

lemma set_insertLeft: "set (insertLeft lt x rp) = insert x (set rp)"
  by (induction rp) auto

lemma sorted_insertLeft:
  assumes "sorted_wrt (\<lambda>a b. f64_ge (k b) (k a)) rp" "k x \<noteq> NaN" "\<forall>y\<in>set rp. k y \<noteq> NaN"
  shows "sorted_wrt (\<lambda>a b. f64_ge (k b) (k a)) (insertLeft (\<lambda>a b. f64_gt (k a) (k b)) x rp)"
  using assms
proof (induction rp)
  case Nil
  then show ?case by simp
next
  case (Cons y rp)
  show ?case
  proof (cases "f64_gt (k x) (k y)")
    case True
    then have "f64_ge (k x) (k y)" using Cons.prems by (cases "k x"; cases "k y") auto
    moreover have "\<forall>z\<in>set rp. f64_ge (k z) (k y)" using Cons.prems by simp
    ultimately show ?thesis using True Cons by (auto simp: set_insertLeft)
  next
    case False
    then have xy: "f64_ge (k y) (k x)" using Cons.prems f64_gt_iff_not_ge [of "k x" "k y"] by auto
    have "\<forall>z\<in>set rp. f64_ge (k z) (k x)"
      using Cons.prems xy f64_ge_trans by auto
    then show ?thesis using False xy Cons.prems by auto
  qed
qed

lemma sorted_foldl_insertLeft:
  assumes "sorted_wrt (\<lambda>a b. f64_ge (k b) (k a)) acc" "\<forall>y\<in>set acc \<union> set xs. k y \<noteq> NaN"
  shows "sorted_wrt (\<lambda>a b. f64_ge (k b) (k a))
           (foldl (\<lambda>rp x. insertLeft (\<lambda>a b. f64_gt (k a) (k b)) x rp) acc xs)"
  using assms
proof (induction xs arbitrary: acc)
  case Nil
  then show ?case by simp
next
  case (Cons x xs)
  have "sorted_wrt (\<lambda>a b. f64_ge (k b) (k a)) (insertLeft (\<lambda>a b. f64_gt (k a) (k b)) x acc)"
    using Cons.prems by (intro sorted_insertLeft) auto
  moreover have "\<forall>y\<in>set (insertLeft (\<lambda>a b. f64_gt (k a) (k b)) x acc) \<union> set xs. k y \<noteq> NaN"
    using Cons.prems by (auto simp: set_insertLeft)
  ultimately show ?case using Cons.IH by simp
qed

lemma sorted_insertionSort:
  assumes "\<forall>y\<in>set xs. k y \<noteq> NaN"
  shows "sorted_wrt (\<lambda>a b. f64_ge (k a) (k b)) (insertionSort (\<lambda>a b. f64_gt (k a) (k b)) xs)"
proof -
  have "sorted_wrt (\<lambda>a b. f64_ge (k b) (k a))
          (foldl (\<lambda>rp x. insertLeft (\<lambda>a b. f64_gt (k a) (k b)) x rp) [] xs)"
    using assms by (intro sorted_foldl_insertLeft) auto
  then show ?thesis by (simp add: insertionSort_def sorted_wrt_rev)
qed

lemma f64_gt_irrefl: "\<not> f64_gt a a"
  by (cases a) auto

lemma f64_gt_trans: "f64_gt a b \<Longrightarrow> f64_gt b c \<Longrightarrow> f64_gt a c"
  by (cases a; cases b; cases c) auto

lemma f64_incomparable_trans:
  assumes "a \<noteq> NaN" "b \<noteq> NaN" "c \<noteq> NaN"
    and "\<not> f64_gt a b" "\<not> f64_gt b a" "\<not> f64_gt b c" "\<not> f64_gt c b"
  shows "\<not> f64_gt a c \<and> \<not> f64_gt c a"
  using assms by (cases a; cases b; cases c) auto

lemma strictWeakOrder_keys:
  assumes "\<forall>y\<in>set xs. k y \<noteq> NaN"
  shows "strictWeakOrder (\<lambda>a b. f64_gt (k a) (k b)) xs"
proof -
  have 1: "\<not> f64_gt (k a) (k a)" for a by (rule f64_gt_irrefl)
  have 2: "f64_gt (k a) (k c)" if "f64_gt (k a) (k b)" "f64_gt (k b) (k c)" for a b c
    using that by (rule f64_gt_trans)
  have 3: "\<not> f64_gt (k a) (k c) \<and> \<not> f64_gt (k c) (k a)"
    if "a \<in> set xs" "b \<in> set xs" "c \<in> set xs"
      "\<not> f64_gt (k a) (k b)" "\<not> f64_gt (k b) (k a)" "\<not> f64_gt (k b) (k c)" "\<not> f64_gt (k c) (k b)"
    for a b c
    using assms that f64_incomparable_trans [of "k a" "k b" "k c"] by blast
  show ?thesis
    unfolding strictWeakOrder_def list_all_iff
  proof (intro conjI ballI)
    fix a
    show "\<not> f64_gt (k a) (k a)" by (rule 1)
  next
    fix a b c
    show "if f64_gt (k a) (k b) \<and> f64_gt (k b) (k c) then f64_gt (k a) (k c) else True"
      using 2 [of a b c] by simp
  next
    fix a b c
    assume "a \<in> set xs" "b \<in> set xs" "c \<in> set xs"
    then show "if \<not> f64_gt (k a) (k b) \<and> \<not> f64_gt (k b) (k a)
                  \<and> \<not> f64_gt (k b) (k c) \<and> \<not> f64_gt (k c) (k b)
               then \<not> f64_gt (k a) (k c) \<and> \<not> f64_gt (k c) (k a) else True"
      using 3 [of a b c] by simp
  qed
qed

lemma sorted_sortSlice:
  assumes "\<forall>y\<in>set xs. k y \<noteq> NaN"
  shows "sorted_wrt (\<lambda>a b. f64_ge (k a) (k b)) (sortSlice cs (\<lambda>a b. f64_gt (k a) (k b)) xs)"
proof -
  define ys where "ys = pick cs xs"
  have s: "set ys = set xs" unfolding ys_def using mset_pick [of cs xs] by (metis set_mset_mset)
  have swo: "strictWeakOrder (\<lambda>a b. f64_gt (k a) (k b)) xs"
    using assms by (rule strictWeakOrder_keys)
  show ?thesis
  proof (cases "inOrder (\<lambda>a b. f64_gt (k a) (k b)) ys")
    case True
    then have "sorted_wrt (\<lambda>a b. \<not> f64_gt (k b) (k a)) ys" by (simp add: inOrder_def)
    then have "sorted_wrt (\<lambda>a b. f64_ge (k a) (k b)) ys"
    proof (rule sorted_wrt_mono_rel [rotated])
      fix a b assume "a \<in> set ys" "b \<in> set ys" "\<not> f64_gt (k b) (k a)"
      then show "f64_ge (k a) (k b)"
        using assms s f64_gt_iff_not_ge [of "k b" "k a"] by auto
    qed
    then show ?thesis using True by (simp add: sortSlice_def ys_def)
  next
    case False
    have "sorted_wrt (\<lambda>a b. f64_ge (k a) (k b)) (insertionSort (\<lambda>a b. f64_gt (k a) (k b)) ys)"
      using assms s by (intro sorted_insertionSort) simp
    then show ?thesis using False swo by (simp add: sortSlice_def ys_def)
  qed
qed

subsection \<open>The ranker\<close>

lemma ratingAbove_eq: "ratingAbove L = (\<lambda>a b. f64_gt (ratingVal L a) (ratingVal L b))"
  by (simp add: ratingAbove_def fun_eq_iff)

lemma ratingVal_default:
  "(\<forall>r. map_of m ''imdbRating'' = Some (JString r) \<longrightarrow> r = ''N/A'' \<or> r = [] \<or> ParseFloat L r = None)
   \<Longrightarrow> ratingVal L m = Finite 0"
  by (auto simp: ratingVal_def split: option.splits json.splits)

lemma topByRating_ok:
  assumes "0 \<le> n"
  shows "\<exists>out. topByRating L cs list n = Some out \<and> int (length out) \<le> n
            \<and> mset out \<subseteq># mset list
            \<and> ((\<forall>m\<in>set list. ratingVal L m \<noteq> NaN)
                 \<longrightarrow> sorted_wrt (\<lambda>a b. f64_ge (ratingVal L a) (ratingVal L b)) out)"
proof -
  define sorted where "sorted = sortSlice cs (\<lambda>a b. f64_gt (ratingVal L a) (ratingVal L b)) list"
  have m: "mset sorted = mset list" by (simp add: sorted_def mset_sortSlice)
  have s: "sorted_wrt (\<lambda>a b. f64_ge (ratingVal L a) (ratingVal L b)) sorted"
    if "\<forall>m\<in>set list. ratingVal L m \<noteq> NaN"
    unfolding sorted_def using that by (rule sorted_sortSlice)
  show ?thesis
  proof (cases "n < int (length sorted)")
    case True
    then have "topByRating L cs list n = Some (take (nat n) sorted)"
      using assms by (simp add: topByRating_def ratingAbove_eq sorted_def Let_def)
    moreover have "mset (take (nat n) sorted) \<subseteq># mset list"
      using m by (metis append_take_drop_id mset_append mset_subset_eq_add_left)
    moreover have "sorted_wrt (\<lambda>a b. f64_ge (ratingVal L a) (ratingVal L b)) (take (nat n) sorted)"
      if "\<forall>m\<in>set list. ratingVal L m \<noteq> NaN"
      using s [OF that] by (rule sorted_wrt_take)
    moreover have "int (length (take (nat n) sorted)) \<le> n" using assms by simp
    ultimately show ?thesis by blast
  next
    case False
    then have "topByRating L cs list n = Some sorted"
      by (simp add: topByRating_def ratingAbove_eq sorted_def Let_def)
    then show ?thesis using m s False by auto
  qed
qed

subsection \<open>The loops of the collector\<close>

text \<open>
  Whatever holds of the entries \<^verbatim>\<open>found\<close> starts with and of every fetched record that
  passes the test holds of the entries at the end; and the keys stay pairwise different.
\<close>

lemma scanItems_inv:
  assumes "\<forall>e\<in>set found. P e"
    and "\<And>i md s s'. i \<noteq> [] \<Longrightarrow> getDetailByID W i s = (Some md, s') \<Longrightarrow> genreMatch L gen md
           \<Longrightarrow> P (i, md)"
  shows "\<forall>e\<in>set (fst (scanItems L W gen limit items found s)). P e"
  using assms(1)
proof (induction items arbitrary: found s)
  case Nil
  then show ?case by simp
next
  case (Cons it items)
  show ?case
  proof (cases "ImdbID it = [] \<or> ImdbID it \<in> fst ` set found")
    case True
    then show ?thesis using Cons by auto
  next
    case False
    obtain r s' where g: "getDetailByID W (ImdbID it) s = (r, s')" by (cases "getDetailByID W (ImdbID it) s")
    show ?thesis
    proof (cases r)
      case None
      then show ?thesis using False g Cons by simp
    next
      case (Some md)
      show ?thesis
      proof (cases "genreMatch L gen md")
        case True
        have "P (ImdbID it, md)" using assms(2) False g Some True by blast
        then have "\<forall>e\<in>set (found @ [(ImdbID it, md)]). P e" using Cons.prems by simp
        then show ?thesis using False g Some True Cons.IH [of "found @ [(ImdbID it, md)]" s']
          by (simp del: set_append)
      next
        case False2: False
        then show ?thesis using False g Some Cons by simp
      qed
    qed
  qed
qed

lemma scanItems_distinct:
  assumes "distinct (map fst found)"
  shows "distinct (map fst (fst (scanItems L W gen limit items found s)))"
  using assms
proof (induction items arbitrary: found s)
  case Nil
  then show ?case by simp
next
  case (Cons it items)
  show ?case
  proof (cases "ImdbID it = [] \<or> ImdbID it \<in> fst ` set found")
    case True
    then show ?thesis using Cons by auto
  next
    case False
    obtain r s' where g: "getDetailByID W (ImdbID it) s = (r, s')" by (cases "getDetailByID W (ImdbID it) s")
    show ?thesis
    proof (cases r)
      case None
      then show ?thesis using False g Cons by simp
    next
      case (Some md)
      have "distinct (map fst (found @ [(ImdbID it, md)]))" using Cons.prems False by auto
      then show ?thesis using False g Some Cons.IH [of "found @ [(ImdbID it, md)]" s'] Cons.IH [of found s'] Cons.prems
        by (simp del: set_append map_append distinct_append)
    qed
  qed
qed

lemma scanKeywords_inv:
  assumes "\<forall>e\<in>set found. P e"
    and "\<And>i md s s'. i \<noteq> [] \<Longrightarrow> getDetailByID W i s = (Some md, s') \<Longrightarrow> genreMatch L gen md
           \<Longrightarrow> P (i, md)"
  shows "\<forall>e\<in>set (fst (scanKeywords L W gen limit ks found s)). P e"
  using assms(1)
proof (induction ks arbitrary: found s)
  case Nil
  then show ?case by simp
next
  case (Cons k ks)
  obtain r s' where sk: "searchByKeyword W k 1 s = (r, s')" by (cases "searchByKeyword W k 1 s")
  show ?case
  proof (cases r)
    case None
    then show ?thesis using sk Cons by simp
  next
    case (Some items)
    obtain found' s'' where si: "scanItems L W gen limit items found s' = (found', s'')"
      by (cases "scanItems L W gen limit items found s'")
    have "\<forall>e\<in>set found'. P e"
      using scanItems_inv [of found P W L gen limit items s', OF Cons.prems assms(2)] si by simp
    then show ?thesis using sk Some si Cons.IH [of found' s''] by simp
  qed
qed

lemma scanKeywords_distinct:
  assumes "distinct (map fst found)"
  shows "distinct (map fst (fst (scanKeywords L W gen limit ks found s)))"
  using assms
proof (induction ks arbitrary: found s)
  case Nil
  then show ?case by simp
next
  case (Cons k ks)
  obtain r s' where sk: "searchByKeyword W k 1 s = (r, s')" by (cases "searchByKeyword W k 1 s")
  show ?case
  proof (cases r)
    case None
    then show ?thesis using sk Cons by simp
  next
    case (Some items)
    obtain found' s'' where si: "scanItems L W gen limit items found s' = (found', s'')"
      by (cases "scanItems L W gen limit items found s'")
    have "distinct (map fst found')"
      using scanItems_distinct [of found L W gen limit items s', OF Cons.prems] si by simp
    then show ?thesis using sk Some si Cons.IH [of found' s''] by simp
  qed
qed

subsection \<open>The admission loop and the phases\<close>

lemma admit_inv: "accInv S0 acc \<Longrightarrow> accInv S0 (admit cands acc)"
proof (induction cands arbitrary: acc)
  case Nil
  then show ?case by (cases acc) simp
next
  case (Cons m cands)
  obtain seen result where acc: "acc = (seen, result)" by (cases acc)
  show ?case
  proof (cases "\<exists>i. map_of m ''imdbID'' = Some (JString i) \<and> i \<notin> seen")
    case True
    then obtain i where i: "map_of m ''imdbID'' = Some (JString i)" "i \<notin> seen" by auto
    have "accInv S0 (insert i seen, result @ [m])"
      using Cons.prems i unfolding acc accInv_def imdbIDs_def by (auto simp: subset_iff)
    then show ?thesis using i Cons.IH [of "(insert i seen, result @ [m])"] acc by simp
  next
    case False
    then have "admit (m # cands) acc = admit cands acc"
      unfolding acc by (auto split: option.splits json.splits)
    then show ?thesis using Cons by simp
  qed
qed

lemma admit_ext:
  "\<exists>added. snd (admit cands acc) = snd acc @ added \<and> set added \<subseteq> set cands"
proof (induction cands arbitrary: acc)
  case Nil
  then show ?case by (cases acc) simp
next
  case (Cons m cands)
  obtain seen result where acc: "acc = (seen, result)" by (cases acc)
  show ?case
  proof (cases "\<exists>i. map_of m ''imdbID'' = Some (JString i) \<and> i \<notin> seen")
    case True
    then obtain i where i: "map_of m ''imdbID'' = Some (JString i)" "i \<notin> seen" by auto
    show ?thesis
    proof (cases "perLevel \<le> int (length (result @ [m]))")
      case True
      then have "snd (admit (m # cands) acc) = snd acc @ [m]" using i acc by simp
      then show ?thesis by auto
    next
      case False
      then have e: "admit (m # cands) acc = admit cands (insert i seen, result @ [m])"
        using i acc by simp
      obtain added where "snd (admit cands (insert i seen, result @ [m])) = (result @ [m]) @ added"
        "set added \<subseteq> set cands"
        using Cons.IH [of "(insert i seen, result @ [m])"] by auto
      then have "snd (admit (m # cands) acc) = snd acc @ (m # added) \<and> set (m # added) \<subseteq> set (m # cands)"
        using e acc by auto
      then show ?thesis by blast
    qed
  next
    case False
    then have "admit (m # cands) acc = admit cands acc"
      unfolding acc by (auto split: option.splits json.splits)
    moreover obtain added where "snd (admit cands acc) = snd acc @ added" "set added \<subseteq> set cands"
      using Cons.IH [of acc] by auto
    ultimately have "snd (admit (m # cands) acc) = snd acc @ added \<and> set added \<subseteq> set (m # cands)"
      by auto
    then show ?thesis by blast
  qed
qed

lemma admit_len:
  "int (length (snd acc)) < perLevel \<Longrightarrow> int (length (snd (admit cands acc))) \<le> perLevel"
proof (induction cands arbitrary: acc)
  case Nil
  then show ?case by (cases acc) simp
next
  case (Cons m cands)
  obtain seen result where acc: "acc = (seen, result)" by (cases acc)
  show ?case
  proof (cases "\<exists>i. map_of m ''imdbID'' = Some (JString i) \<and> i \<notin> seen")
    case True
    then obtain i where i: "map_of m ''imdbID'' = Some (JString i)" "i \<notin> seen" by auto
    show ?thesis
    proof (cases "perLevel \<le> int (length (result @ [m]))")
      case True
      then show ?thesis using i acc Cons.prems by simp
    next
      case False
      then show ?thesis using i acc Cons.IH [of "(insert i seen, result @ [m])"] by simp
    qed
  next
    case False
    then have "admit (m # cands) acc = admit cands acc"
      unfolding acc by (auto split: option.splits json.splits)
    then show ?thesis using Cons by simp
  qed
qed

lemma collectByGenre_match:
  "\<forall>m\<in>set (fst (collectByGenre L W gen limit s)). genreMatch L gen m"
proof -
  obtain found s' where cf: "collectFound L W gen limit s = (found, s')"
    by (cases "collectFound L W gen limit s")
  obtain cs s'' where rc: "runtimeChoice W s' = (cs, s'')" by (cases "runtimeChoice W s'")
  have "\<forall>e\<in>set (fst (scanKeywords L W gen limit kw [] s)). genreMatch L gen (snd e)"
    by (rule scanKeywords_inv) auto
  then have "\<forall>m\<in>set (map snd found). genreMatch L gen m"
    using cf by (simp add: collectFound_def)
  moreover have "set (pick cs (map snd found)) = set (map snd found)"
    using mset_pick [of cs "map snd found"] by (metis set_mset_mset)
  ultimately show ?thesis using cf rc by (simp add: collectByGenre_def)
qed

lemma topByRating_total:
  assumes "0 \<le> n"
  shows "\<exists>out. topByRating L cs list n = Some out \<and> set out \<subseteq> set list"
proof -
  define sorted where "sorted = sortSlice cs (\<lambda>a b. f64_gt (ratingVal L a) (ratingVal L b)) list"
  have "set sorted = set list"
    using mset_sortSlice [of cs "\<lambda>a b. f64_gt (ratingVal L a) (ratingVal L b)" list]
    unfolding sorted_def by (metis set_mset_mset)
  moreover have "set (take (nat n) sorted) \<subseteq> set sorted" by (rule set_take_subset)
  ultimately show ?thesis using assms by (auto simp: topByRating_def ratingAbove_eq sorted_def [symmetric] Let_def)
qed

lemma phaseLoop_props:
  assumes "accInv S0 acc" "int (length (snd acc)) < perLevel"
  shows "\<exists>acc' added. fst (phaseLoop L W ts acc s) = Some acc' \<and> accInv S0 acc'
           \<and> int (length (snd acc')) \<le> perLevel \<and> snd acc' = snd acc @ added
           \<and> (\<forall>m\<in>set added. \<exists>t\<in>set ts. genreMatch L (TrimSpace L t) m)"
  using assms
proof (induction ts arbitrary: acc s)
  case Nil
  then show ?case by simp
next
  case (Cons t ts)
  obtain list s' where cg: "collectByGenre L W (TrimSpace L t) perLevel s = (list, s')"
    by (cases "collectByGenre L W (TrimSpace L t) perLevel s")
  obtain cs s'' where rc: "runtimeChoice W s' = (cs, s'')" by (cases "runtimeChoice W s'")
  obtain cands where tb: "topByRating L cs list perLevel = Some cands" "set cands \<subseteq> set list"
    using topByRating_total [of perLevel L cs list] by (auto simp: perLevel_def)
  have lm: "\<forall>m\<in>set list. genreMatch L (TrimSpace L t) m"
    using collectByGenre_match [of L W "TrimSpace L t" perLevel s] cg by simp
  define acc1 where "acc1 = admit cands acc"
  have inv1: "accInv S0 acc1" unfolding acc1_def using Cons.prems(1) by (rule admit_inv)
  have len1: "int (length (snd acc1)) \<le> perLevel"
    unfolding acc1_def using Cons.prems(2) by (rule admit_len)
  obtain added1 where a1: "snd acc1 = snd acc @ added1" "set added1 \<subseteq> set cands"
    unfolding acc1_def using admit_ext [of cands acc] by auto
  have m1: "\<forall>m\<in>set added1. genreMatch L (TrimSpace L t) m" using a1 tb lm by auto
  show ?case
  proof (cases "perLevel \<le> int (length (snd acc1))")
    case True
    then have "fst (phaseLoop L W (t # ts) acc s) = Some acc1"
      using cg rc tb by (simp add: acc1_def)
    then show ?thesis using inv1 len1 a1 m1 by auto
  next
    case False
    then have e: "phaseLoop L W (t # ts) acc s = phaseLoop L W ts acc1 s''"
      using cg rc tb by (simp add: acc1_def)
    from False have "int (length (snd acc1)) < perLevel" by simp
    from Cons.IH [OF inv1 this, of s'']
    obtain acc' added where r: "fst (phaseLoop L W ts acc1 s'') = Some acc'" "accInv S0 acc'"
      "int (length (snd acc')) \<le> perLevel" "snd acc' = snd acc1 @ added"
      "\<forall>m\<in>set added. \<exists>t\<in>set ts. genreMatch L (TrimSpace L t) m" by auto
    have "snd acc' = snd acc @ (added1 @ added)" using r a1 by simp
    moreover have "\<forall>m\<in>set (added1 @ added). \<exists>t'\<in>set (t # ts). genreMatch L (TrimSpace L t') m"
      using r(5) m1 by auto
    ultimately show ?thesis using e r(1,2,3) by metis
  qed
qed

lemma fieldPhase_props:
  assumes "accInv S0 acc" "int (length (snd acc)) < perLevel"
  shows "\<exists>acc' added. fst (fieldPhase L W seed field acc s) = Some acc' \<and> accInv S0 acc'
           \<and> int (length (snd acc')) \<le> perLevel \<and> snd acc' = snd acc @ added
           \<and> (\<forall>m\<in>set added. fieldMatch L seed field m)"
proof (cases "\<exists>g. map_of seed field = Some (JString g)")
  case True
  then obtain g where g: "map_of seed field = Some (JString g)" by auto
  then have e: "fieldPhase L W seed field acc s = phaseLoop L W (Split g) acc s"
    by (simp add: fieldPhase_def)
  from phaseLoop_props [OF assms, of L W "Split g" s]
  obtain acc' added where "fst (phaseLoop L W (Split g) acc s) = Some acc'" "accInv S0 acc'"
    "int (length (snd acc')) \<le> perLevel" "snd acc' = snd acc @ added"
    "\<forall>m\<in>set added. \<exists>t\<in>set (Split g). genreMatch L (TrimSpace L t) m" by auto
  then show ?thesis using e g unfolding fieldMatch_def by auto
next
  case False
  then have "fieldPhase L W seed field acc s = (Some acc, s)"
    by (auto simp: fieldPhase_def split: option.splits json.splits)
  then show ?thesis using assms by auto
qed

lemma guardedPhase_props:
  assumes "accInv S0 acc" "int (length (snd acc)) \<le> perLevel"
  shows "\<exists>acc' added. fst (guardedPhase L W seed field acc s) = Some acc' \<and> accInv S0 acc'
           \<and> int (length (snd acc')) \<le> perLevel \<and> snd acc' = snd acc @ added
           \<and> (\<forall>m\<in>set added. fieldMatch L seed field m)"
proof (cases "int (length (snd acc)) < perLevel")
  case True
  then show ?thesis using fieldPhase_props [OF assms(1) True] by (simp add: guardedPhase_def)
next
  case False
  then have "guardedPhase L W seed field acc s = (Some acc, s)" by (simp add: guardedPhase_def)
  then show ?thesis using assms by auto
qed

lemma accInv_start: "accInv (seedSeen seed) (seedSeen seed, [])"
  by (simp add: accInv_def imdbIDs_def)

lemma phases_props:
  "\<exists>acc G D A. fst (phases L W seed s) = Some (snd acc) \<and> accInv (seedSeen seed) acc
      \<and> int (length (snd acc)) \<le> perLevel \<and> snd acc = G @ D @ A
      \<and> (\<forall>m\<in>set G. fieldMatch L seed ''Genre'' m)
      \<and> (\<forall>m\<in>set D. fieldMatch L seed ''Director'' m)
      \<and> (\<forall>m\<in>set A. fieldMatch L seed ''Actors'' m)"
proof -
  have l0: "int (length (snd (seedSeen seed, []::detail list))) < perLevel"
    by (simp add: perLevel_def)
  obtain r1 s1 where p1: "fieldPhase L W seed ''Genre'' (seedSeen seed, []) s = (r1, s1)"
    by (cases "fieldPhase L W seed ''Genre'' (seedSeen seed, []) s")
  from fieldPhase_props [OF accInv_start l0, of L W seed "''Genre''" s] p1
  obtain acc1 G where a1: "r1 = Some acc1" "accInv (seedSeen seed) acc1"
    "int (length (snd acc1)) \<le> perLevel" "snd acc1 = G"
    "\<forall>m\<in>set G. fieldMatch L seed ''Genre'' m" by auto
  obtain r2 s2 where p2: "guardedPhase L W seed ''Director'' acc1 s1 = (r2, s2)"
    by (cases "guardedPhase L W seed ''Director'' acc1 s1")
  from guardedPhase_props [OF a1(2,3), of L W seed "''Director''" s1] p2
  obtain acc2 D where a2: "r2 = Some acc2" "accInv (seedSeen seed) acc2"
    "int (length (snd acc2)) \<le> perLevel" "snd acc2 = snd acc1 @ D"
    "\<forall>m\<in>set D. fieldMatch L seed ''Director'' m" by auto
  obtain r3 s3 where p3: "guardedPhase L W seed ''Actors'' acc2 s2 = (r3, s3)"
    by (cases "guardedPhase L W seed ''Actors'' acc2 s2")
  from guardedPhase_props [OF a2(2,3), of L W seed "''Actors''" s2] p3
  obtain acc3 A where a3: "r3 = Some acc3" "accInv (seedSeen seed) acc3"
    "int (length (snd acc3)) \<le> perLevel" "snd acc3 = snd acc2 @ A"
    "\<forall>m\<in>set A. fieldMatch L seed ''Actors'' m" by auto
  have "fst (phases L W seed s) = Some (snd acc3)"
    using p1 p2 p3 a1(1) a2(1) a3(1,3) by (simp add: phases_def)
  moreover have "snd acc3 = G @ D @ A" using a1(4) a2(4) a3(4) by simp
  ultimately show ?thesis using a3(2,3) a1(5) a2(5) a3(5) by blast
qed

lemma entry_imdbID:
  "map_of m ''imdbID'' = Some (JString i) \<Longrightarrow> map_of (entry m) ''imdbID'' = Some (JString i)"
  by (simp add: entry_def)

lemma entry_ids:
  assumes "\<forall>m\<in>set result. \<exists>i. map_of m ''imdbID'' = Some (JString i)"
  shows "map (\<lambda>e. map_of e ''imdbID'') (map entry result) = map (\<lambda>m. map_of m ''imdbID'') result"
  using assms by (induction result) (auto simp: entry_imdbID)

lemma recommend_unfold:
  assumes "getDetailByTitle W fav s = (Some seed, s0)"
  shows "\<exists>acc G D A. fst (recommend L W fav s) = Recommendations (map_of seed ''Title'') (map entry (snd acc))
      \<and> accInv (seedSeen seed) acc
      \<and> int (length (snd acc)) \<le> perLevel \<and> snd acc = G @ D @ A
      \<and> (\<forall>m\<in>set G. fieldMatch L seed ''Genre'' m)
      \<and> (\<forall>m\<in>set D. fieldMatch L seed ''Director'' m)
      \<and> (\<forall>m\<in>set A. fieldMatch L seed ''Actors'' m)"
proof -
  from phases_props [of L W seed s0]
  obtain acc G D A where p: "fst (phases L W seed s0) = Some (snd acc)" "accInv (seedSeen seed) acc"
      "int (length (snd acc)) \<le> perLevel" "snd (acc :: string set \<times> detail list) = G @ D @ A"
      "\<forall>m\<in>set G. fieldMatch L seed ''Genre'' m"
      "\<forall>m\<in>set D. fieldMatch L seed ''Director'' m"
      "\<forall>m\<in>set A. fieldMatch L seed ''Actors'' m" by blast
  have "fst (recommend L W fav s) = Recommendations (map_of seed ''Title'') (map entry (snd acc))"
    using assms p(1) by (cases "phases L W seed s0") (simp add: recommend_def)
  then show ?thesis using p(2-) by blast
qed

subsection \<open>Substrings and the test of the collector\<close>

lemma Contains_iff: "Contains s sub \<longleftrightarrow> (\<exists>p q. s = p @ sub @ q)"
proof (induction s)
  case Nil
  then show ?case by auto
next
  case (Cons c s)
  show ?case
  proof
    assume "Contains (c # s) sub"
    then consider "prefix sub (c # s)" | "Contains s sub" by auto
    then show "\<exists>p q. c # s = p @ sub @ q"
    proof cases
      case 1
      then obtain q where "c # s = sub @ q" by (auto simp: prefix_def)
      then have "c # s = [] @ sub @ q" by simp
      then show ?thesis by blast
    next
      case 2
      then obtain p q where "s = p @ sub @ q" using Cons by auto
      then have "c # s = (c # p) @ sub @ q" by simp
      then show ?thesis by blast
    qed
  next
    assume "\<exists>p q. c # s = p @ sub @ q"
    then obtain p q where pq: "c # s = p @ sub @ q" by auto
    show "Contains (c # s) sub"
    proof (cases p)
      case Nil
      then have "prefix sub (c # s)" using pq by (simp add: prefix_def)
      then show ?thesis by simp
    next
      case (Cons a p')
      then have "s = p' @ sub @ q" using pq by simp
      then show ?thesis using Cons.IH by auto
    qed
  qed
qed

lemma scanItems_one:
  assumes "ImdbID it \<noteq> []" "ImdbID it \<notin> fst ` set found"
    "getDetailByID W (ImdbID it) s = (Some md, s')"
  shows "scanItems L W flt limit (it # items) found s =
           (if genreMatch L flt md
            then (if limit \<le> int (length found) + 1 then (found @ [(ImdbID it, md)], s')
                  else scanItems L W flt limit items (found @ [(ImdbID it, md)]) s')
            else scanItems L W flt limit items found s')"
  using assms by simp

lemma ToLower_Nil: "ToLower L [] = []"
  by (simp add: ToLower_def)

lemma collectByGenre_mset:
  "mset (fst (collectByGenre L W gen limit s)) = mset (map snd (fst (collectFound L W gen limit s)))"
  by (simp add: collectByGenre_def mset_pick split: prod.splits)

lemma genreMatch_contains: "genreMatch L flt md \<longleftrightarrow> genreContains L flt md"
  by (auto simp: genreMatch_def genreContains_def Contains_iff sublist_def
           split: option.splits json.splits)

subsection \<open>The collector against a provider that answers by tables\<close>

lemma remdups_snoc: "remdups (ys @ [x]) = filter (\<lambda>y. y \<noteq> x) (remdups ys) @ [x]"
  by (induction ys) auto

lemma firstSeen_Nil: "firstSeen [] = []"
  by (simp add: firstSeen_def)

lemma firstSeen_Cons: "firstSeen (x # xs) = x # filter (\<lambda>y. y \<noteq> x) (firstSeen xs)"
  by (simp add: firstSeen_def remdups_snoc rev_filter)

lemma concat_admission_drop:
  assumes "f x = [] \<or> \<not> P x"
  shows "concat (map f (filter P (filter (\<lambda>y. y \<noteq> x) zs))) = concat (map f (filter P zs))"
  using assms by (induction zs) auto

lemma getDetailByID_answers:
  assumes "\<And>i t. fst (fetchID W i t) = byID i"
  shows "fst (getDetailByID W i s) =
           (case byID i of
              None \<Rightarrow> None
            | Some md \<Rightarrow> if map_of md ''Response'' = Some (JString ''False'') then None else Some md)"
  using assms [of i s] by (cases "fetchID W i s") (auto simp: getDetailByID_def split: option.splits)

lemma scanItems_exact:
  assumes st: "\<And>i t. fst (fetchID W i t) = byID i"
    and "int (length found) < limit"
  shows "fst (scanItems L W flt limit items found s) =
           found @ take (nat limit - length found)
             (concat (map (admission (genreContains L flt) byID)
                (filter (\<lambda>i. i \<notin> fst ` set found) (firstSeen (map ImdbID items)))))"
  using assms(2)
proof (induction items arbitrary: found s)
  case Nil
  then show ?case by (simp add: firstSeen_Nil)
next
  case (Cons it items)
  define i where "i = ImdbID it"
  define F where "F = firstSeen (map ImdbID items)"
  define adm where "adm = admission (genreContains L flt) byID"
  define K where "K = fst ` set found"
  have fs: "firstSeen (map ImdbID (it # items)) = i # filter (\<lambda>y. y \<noteq> i) F"
    by (simp add: firstSeen_Cons i_def F_def)
  have skip: "concat (map adm (filter (\<lambda>y. y \<notin> K) (i # filter (\<lambda>y. y \<noteq> i) F)))
                = concat (map adm (filter (\<lambda>y. y \<notin> K) F))" if "adm i = [] \<or> i \<in> K"
  proof -
    have "concat (map adm (filter (\<lambda>y. y \<notin> K) (filter (\<lambda>y. y \<noteq> i) F)))
            = concat (map adm (filter (\<lambda>y. y \<notin> K) F))"
      using that by (intro concat_admission_drop) auto
    then show ?thesis using that by auto
  qed
  have IH: "fst (scanItems L W flt limit items found t) =
           found @ take (nat limit - length found) (concat (map adm (filter (\<lambda>y. y \<notin> K) F)))" for t
    using Cons.IH [OF Cons.prems, of t] by (simp add: adm_def F_def K_def)
  show ?case
  proof (cases "i = [] \<or> i \<in> K")
    case True
    then have "adm i = [] \<or> i \<in> K" by (auto simp: adm_def admission_def)
    then show ?thesis using True IH [of s] skip
      unfolding fs adm_def [symmetric] K_def [symmetric] by (auto simp: i_def K_def)
  next
    case False
    obtain r s' where g: "getDetailByID W i s = (r, s')" by (cases "getDetailByID W i s")
    have r: "r = (case byID i of
              None \<Rightarrow> None
            | Some md \<Rightarrow> if map_of md ''Response'' = Some (JString ''False'') then None else Some md)"
      using getDetailByID_answers [of W byID i s, OF st] g by simp
    show ?thesis
    proof (cases "\<exists>md. r = Some md \<and> genreMatch L flt md")
      case no: False
      then have "adm i = []"
        using r False by (auto simp: adm_def admission_def genreMatch_contains split: option.splits)
      moreover have "fst (scanItems L W flt limit (it # items) found s)
                       = fst (scanItems L W flt limit items found s')"
        using False g no by (cases r) (auto simp: i_def K_def)
      ultimately show ?thesis using IH [of s'] skip
        unfolding fs adm_def [symmetric] K_def [symmetric] by simp
    next
      case True
      then obtain md where md: "r = Some md" "genreMatch L flt md" by blast
      have ai: "adm i = [(i, md)]"
        using r md False by (auto simp: adm_def admission_def genreMatch_contains split: option.splits if_splits)
      define found' where "found' = found @ [(i, md)]"
      have K': "fst ` set found' = insert i K" by (auto simp: found'_def K_def)
      have rest: "filter (\<lambda>y. y \<notin> insert i K) F = filter (\<lambda>y. y \<notin> K) (filter (\<lambda>y. y \<noteq> i) F)"
        by (induction F) auto
      have R: "concat (map adm (filter (\<lambda>y. y \<notin> K) (i # filter (\<lambda>y. y \<noteq> i) F)))
                 = (i, md) # concat (map adm (filter (\<lambda>y. y \<notin> insert i K) F))"
        using False ai rest by simp
      have n: "nat limit - length found = Suc (nat limit - length found')"
        using Cons.prems by (simp add: found'_def)
      show ?thesis
      proof (cases "limit \<le> int (length found')")
        case stop: True
        then have "fst (scanItems L W flt limit (it # items) found s) = found'"
          using False g md by (simp add: i_def K_def found'_def)
        moreover have "nat limit - length found' = 0" using stop by simp
        ultimately show ?thesis
          unfolding fs adm_def [symmetric] K_def [symmetric] R n by (simp add: found'_def)
      next
        case go: False
        then have "fst (scanItems L W flt limit (it # items) found s)
                     = fst (scanItems L W flt limit items found' s')"
          using False g md by (simp add: i_def K_def found'_def)
        moreover have "fst (scanItems L W flt limit items found' s') =
           found' @ take (nat limit - length found')
             (concat (map adm (filter (\<lambda>y. y \<notin> insert i K) F)))"
          using Cons.IH [of found' s'] go by (simp add: adm_def F_def K')
        ultimately show ?thesis
          unfolding fs adm_def [symmetric] K_def [symmetric] R n by (simp add: found'_def)
      qed
    qed
  qed
qed


lemma remdups_append_filter:
  "remdups (xs @ ys) = filter (\<lambda>y. y \<notin> set ys) (remdups xs) @ remdups ys"
  by (induction xs) auto

lemma firstSeen_append:
  "firstSeen (xs @ ys) = firstSeen xs @ filter (\<lambda>y. y \<notin> set xs) (firstSeen ys)"
  by (simp add: firstSeen_def remdups_append_filter rev_filter)

lemma set_firstSeen: "set (firstSeen xs) = set xs"
  by (simp add: firstSeen_def)

lemma concat_filter_cong:
  "\<forall>z\<in>set zs. P z \<noteq> Q z \<longrightarrow> f z = [] \<Longrightarrow>
     concat (map f (filter P zs)) = concat (map f (filter Q zs))"
  by (induction zs) auto

lemma admission_key: "e \<in> set (admission P byID i) \<Longrightarrow> fst e = i"
  by (auto simp: admission_def split: if_splits option.splits)

lemma admission_cases: "admission P byID i = [] \<or> (\<exists>md. admission P byID i = [(i, md)])"
  by (simp add: admission_def split: option.splits)

lemma searchByKeyword_answers:
  assumes "\<And>k p t. fst (fetchSearch W k p t) = bySearch k p"
  shows "hitIDs (bySearch k p) =
           (case fst (searchByKeyword W k p s) of None \<Rightarrow> [] | Some items \<Rightarrow> map ImdbID items)"
  using assms [of k p s]
  by (cases "fetchSearch W k p s") (auto simp: searchByKeyword_def hitIDs_def split: option.splits)

lemma scanKeywords_exact:
  assumes st: "answersBy W byID bySearch"
    and "int (length found) < limit"
  shows "fst (scanKeywords L W flt limit ks found s) =
           found @ take (nat limit - length found)
             (concat (map (admission (genreContains L flt) byID)
                (filter (\<lambda>i. i \<notin> fst ` set found)
                   (firstSeen (concat (map (\<lambda>k. hitIDs (bySearch k 1)) ks))))))"
  using assms(2)
proof (induction ks arbitrary: found s)
  case Nil
  then show ?case by (simp add: firstSeen_Nil)
next
  case (Cons k ks)
  from st have sid: "\<And>i t. fst (fetchID W i t) = byID i"
    and ssr: "\<And>k p t. fst (fetchSearch W k p t) = bySearch k p"
    by (simp_all add: answersBy_def)
  define adm where "adm = admission (genreContains L flt) byID"
  define R where "R = concat (map (\<lambda>k. hitIDs (bySearch k 1)) ks)"
  define K where "K = fst ` set found"
  define n where "n = nat limit - length found"
  obtain r s' where sk: "searchByKeyword W k 1 s = (r, s')" by (cases "searchByKeyword W k 1 s")
  have hr: "hitIDs (bySearch k 1) = (case r of None \<Rightarrow> [] | Some items \<Rightarrow> map ImdbID items)"
    using searchByKeyword_answers [of W bySearch k 1 s, OF ssr] sk by simp
  have IH: "int (length f) < limit \<Longrightarrow> fst (scanKeywords L W flt limit ks f t) =
           f @ take (nat limit - length f)
             (concat (map adm (filter (\<lambda>i. i \<notin> fst ` set f) (firstSeen R))))" for f t
    using Cons.IH [of f t] by (simp add: adm_def R_def)
  show ?case
  proof (cases r)
    case None
    then have "fst (scanKeywords L W flt limit (k # ks) found s)
                 = fst (scanKeywords L W flt limit ks found s')"
      using sk by simp
    moreover have "concat (map (\<lambda>k. hitIDs (bySearch k 1)) (k # ks)) = R"
      using hr None by (simp add: R_def)
    ultimately show ?thesis using IH [OF Cons.prems, of s']
      unfolding adm_def [symmetric] by simp
  next
    case (Some items)
    define I where "I = map ImdbID items"
    define X where "X = concat (map adm (filter (\<lambda>i. i \<notin> K) (firstSeen I)))"
    define Y where "Y = concat (map adm (filter (\<lambda>i. i \<notin> K) (filter (\<lambda>y. y \<notin> set I) (firstSeen R))))"
    have cc: "concat (map (\<lambda>k. hitIDs (bySearch k 1)) (k # ks)) = I @ R"
      using hr Some by (simp add: R_def I_def)
    have Z: "concat (map adm (filter (\<lambda>i. i \<notin> K) (firstSeen (I @ R)))) = X @ Y"
      by (simp add: firstSeen_append X_def Y_def)
    obtain found' s'' where si: "scanItems L W flt limit items found s' = (found', s'')"
      by (cases "scanItems L W flt limit items found s'")
    have f': "found' = found @ take n X"
      using scanItems_exact [of W byID found limit L flt items s', OF sid Cons.prems] si
      by (simp add: X_def adm_def K_def n_def I_def)
    show ?thesis
    proof (cases "limit \<le> int (length found')")
      case True
      then have "fst (scanKeywords L W flt limit (k # ks) found s) = found'"
        using sk Some si by simp
      moreover have "n \<le> length X" using True f' Cons.prems by (simp add: n_def)
      ultimately show ?thesis
        unfolding adm_def [symmetric] K_def [symmetric] n_def [symmetric] cc Z using f' by simp
    next
      case False
      then have e: "fst (scanKeywords L W flt limit (k # ks) found s)
                      = fst (scanKeywords L W flt limit ks found' s'')"
        using sk Some si by simp
      have lx: "length X < n" using False f' Cons.prems by (simp add: n_def)
      then have fx: "found' = found @ X" using f' by simp
      have K': "fst ` set found' = K \<union> fst ` set X" by (auto simp: fx K_def)
      have XI: "fst ` set X \<subseteq> set I"
        by (auto simp: X_def adm_def set_firstSeen dest: admission_key)
      have gone: "adm z = []" if "z \<in> set I" "z \<notin> K" "z \<notin> fst ` set X" for z
      proof (rule ccontr)
        assume ne: "adm z \<noteq> []"
        then have "z \<in> fst ` set (adm z)" using admission_cases [of "genreContains L flt" byID z]
          by (auto simp: adm_def)
        moreover have "set (adm z) \<subseteq> set X" using that(1,2) by (auto simp: X_def set_firstSeen)
        ultimately show False using that(3) by auto
      qed
      have Y': "concat (map adm (filter (\<lambda>i. i \<notin> fst ` set found') (firstSeen R))) = Y"
        unfolding Y_def filter_filter K'
        by (rule concat_filter_cong) (use XI gone in auto)
      have "fst (scanKeywords L W flt limit ks found' s'') = found' @ take (nat limit - length found') Y"
        using IH [of found' s''] False Y' by simp
      moreover have "nat limit - length found' = n - length X" by (simp add: fx n_def)
      ultimately show ?thesis
        unfolding adm_def [symmetric] K_def [symmetric] n_def [symmetric] cc Z e using fx lx by simp
    qed
  qed
qed

lemma collectFound_exact:
  assumes "answersBy W byID bySearch" "0 < limit"
  shows "fst (collectFound L W flt limit s) = expectedFound (genreContains L flt) byID bySearch limit"
  using scanKeywords_exact [of W byID bySearch "[]" limit L flt kw s, OF assms(1)] assms(2)
  by (simp add: collectFound_def expectedFound_def)

lemma scanItems_len:
  "int (length found) < limit \<Longrightarrow> int (length (fst (scanItems L W gen limit items found s))) \<le> limit"
proof (induction items arbitrary: found s)
  case Nil
  then show ?case by simp
next
  case (Cons it items)
  show ?case
  proof (cases "ImdbID it = [] \<or> ImdbID it \<in> fst ` set found")
    case True
    then show ?thesis using Cons by auto
  next
    case False
    obtain r s' where g: "getDetailByID W (ImdbID it) s = (r, s')" by (cases "getDetailByID W (ImdbID it) s")
    show ?thesis
    proof (cases r)
      case None
      then show ?thesis using False g Cons by simp
    next
      case (Some md)
      show ?thesis
        using False g Some Cons.IH [of "found @ [(ImdbID it, md)]" s'] Cons.IH [of found s'] Cons.prems
        by (simp del: set_append)
    qed
  qed
qed

lemma scanKeywords_len:
  "int (length found) < limit \<Longrightarrow> int (length (fst (scanKeywords L W gen limit ks found s))) \<le> limit"
proof (induction ks arbitrary: found s)
  case Nil
  then show ?case by simp
next
  case (Cons k ks)
  obtain r s' where sk: "searchByKeyword W k 1 s = (r, s')" by (cases "searchByKeyword W k 1 s")
  show ?case
  proof (cases r)
    case None
    then show ?thesis using sk Cons by simp
  next
    case (Some items)
    obtain found' s'' where si: "scanItems L W gen limit items found s' = (found', s'')"
      by (cases "scanItems L W gen limit items found s'")
    have "int (length found') \<le> limit"
      using scanItems_len [of found limit L W gen items s', OF Cons.prems] si by simp
    then show ?thesis using sk Some si Cons.IH [of found' s''] by simp
  qed
qed

lemma collectByGenre_len:
  assumes "0 < limit"
  shows "int (length (fst (collectByGenre L W gen limit s))) \<le> limit"
proof -
  have "length (fst (collectByGenre L W gen limit s)) = length (fst (collectFound L W gen limit s))"
    using collectByGenre_mset [of L W gen limit s] by (metis size_mset length_map)
  moreover have "int (length (fst (collectFound L W gen limit s))) \<le> limit"
    unfolding collectFound_def using assms by (intro scanKeywords_len) simp
  ultimately show ?thesis by simp
qed

lemma topByRating_all:
  assumes "int (length list) \<le> n"
  shows "\<exists>cands. topByRating L cs list n = Some cands \<and> mset cands = mset list"
proof -
  have "length (sortSlice cs (ratingAbove L) list) = length list"
    using mset_sortSlice [of cs "ratingAbove L" list] by (metis size_mset)
  then show ?thesis using assms mset_sortSlice [of cs "ratingAbove L" list]
    by (simp add: topByRating_def Let_def)
qed

lemma phaseLoop_step:
  "\<exists>list u1 cs u2 cands.
      collectByGenre L W (TrimSpace L t) perLevel u = (list, u1)
    \<and> runtimeChoice W u1 = (cs, u2)
    \<and> topByRating L cs list perLevel = Some cands \<and> mset cands = mset list
    \<and> (\<forall>m\<in>set list. genreContains L (TrimSpace L t) m)
    \<and> phaseLoop L W (t # ts) acc u =
        (if perLevel \<le> int (length (snd (admit cands acc))) then (Some (admit cands acc), u2)
         else phaseLoop L W ts (admit cands acc) u2)"
proof -
  obtain list u1 where cg: "collectByGenre L W (TrimSpace L t) perLevel u = (list, u1)"
    by (cases "collectByGenre L W (TrimSpace L t) perLevel u")
  obtain cs u2 where rc: "runtimeChoice W u1 = (cs, u2)" by (cases "runtimeChoice W u1")
  have "int (length list) \<le> perLevel"
    using collectByGenre_len [of perLevel L W "TrimSpace L t" u] cg by (simp add: perLevel_def)
  then obtain cands where tb: "topByRating L cs list perLevel = Some cands" "mset cands = mset list"
    using topByRating_all by blast
  have lm: "\<forall>m\<in>set list. genreContains L (TrimSpace L t) m"
    using collectByGenre_match [of L W "TrimSpace L t" perLevel u] cg
    by (simp add: genreMatch_contains)
  have "phaseLoop L W (t # ts) acc u =
        (if perLevel \<le> int (length (snd (admit cands acc))) then (Some (admit cands acc), u2)
         else phaseLoop L W ts (admit cands acc) u2)"
    using cg rc tb(1) by simp
  with cg rc tb lm show ?thesis by blast
qed


subsection \<open>The phases, one by one\<close>

lemma fieldPhase_eq:
  "fieldPhase L W seed field acc u =
     (case map_of seed field of
        Some (JString d) \<Rightarrow> phaseLoop L W (Split d) acc u
      | _ \<Rightarrow> (Some acc, u))"
  by (simp add: fieldPhase_def)

lemma guardedPhase_eq:
  "guardedPhase L W seed field acc u =
     (if perLevel \<le> int (length (snd acc)) then (Some acc, u)
      else (case map_of seed field of
              Some (JString d) \<Rightarrow> phaseLoop L W (Split d) acc u
            | _ \<Rightarrow> (Some acc, u)))"
  by (simp add: guardedPhase_def fieldPhase_def)

lemma fieldMatch_contains:
  "fieldMatch L seed field m \<longleftrightarrow>
     (\<exists>d t. map_of seed field = Some (JString d) \<and> t \<in> set (Split d)
        \<and> genreContains L (TrimSpace L t) m)"
  by (auto simp: fieldMatch_def genreMatch_contains)

lemma recommend_chain:
  assumes "getDetailByTitle W fav s = (Some seed, s0)"
  shows "\<exists>acc1 s1 acc2 s2 acc3 s3 D A.
           fieldPhase L W seed ''Genre'' (seedSeen seed, []) s0 = (Some acc1, s1)
         \<and> guardedPhase L W seed ''Director'' acc1 s1 = (Some acc2, s2)
         \<and> guardedPhase L W seed ''Actors'' acc2 s2 = (Some acc3, s3)
         \<and> recommend L W fav s = (Recommendations (map_of seed ''Title'') (map entry (snd acc3)), s3)
         \<and> snd acc2 = snd acc1 @ D \<and> snd acc3 = snd acc2 @ A
         \<and> (\<forall>m\<in>set (snd acc1). fieldMatch L seed ''Genre'' m)
         \<and> (\<forall>m\<in>set D. fieldMatch L seed ''Director'' m)
         \<and> (\<forall>m\<in>set A. fieldMatch L seed ''Actors'' m)"
proof -
  have l0: "int (length (snd (seedSeen seed, []::detail list))) < perLevel"
    by (simp add: perLevel_def)
  obtain r1 s1 where p1: "fieldPhase L W seed ''Genre'' (seedSeen seed, []) s0 = (r1, s1)"
    by (cases "fieldPhase L W seed ''Genre'' (seedSeen seed, []) s0")
  from fieldPhase_props [OF accInv_start l0, of L W seed "''Genre''" s0] p1
  obtain acc1 where a1: "r1 = Some acc1" "accInv (seedSeen seed) acc1"
    "int (length (snd acc1)) \<le> perLevel" "\<forall>m\<in>set (snd acc1). fieldMatch L seed ''Genre'' m"
    by auto
  obtain r2 s2 where p2: "guardedPhase L W seed ''Director'' acc1 s1 = (r2, s2)"
    by (cases "guardedPhase L W seed ''Director'' acc1 s1")
  from guardedPhase_props [OF a1(2,3), of L W seed "''Director''" s1] p2
  obtain acc2 D where a2: "r2 = Some acc2" "accInv (seedSeen seed) acc2"
    "int (length (snd acc2)) \<le> perLevel" "snd acc2 = snd acc1 @ D"
    "\<forall>m\<in>set D. fieldMatch L seed ''Director'' m" by auto
  obtain r3 s3 where p3: "guardedPhase L W seed ''Actors'' acc2 s2 = (r3, s3)"
    by (cases "guardedPhase L W seed ''Actors'' acc2 s2")
  from guardedPhase_props [OF a2(2,3), of L W seed "''Actors''" s2] p3
  obtain acc3 A where a3: "r3 = Some acc3" "accInv (seedSeen seed) acc3"
    "int (length (snd acc3)) \<le> perLevel" "snd acc3 = snd acc2 @ A"
    "\<forall>m\<in>set A. fieldMatch L seed ''Actors'' m" by auto
  have "phases L W seed s0 = (Some (snd acc3), s3)"
    using p1 p2 p3 a1(1) a2(1) a3(1,3) by (simp add: phases_def)
  then have r: "recommend L W fav s
                  = (Recommendations (map_of seed ''Title'') (map entry (snd acc3)), s3)"
    using assms by (simp add: recommend_def)
  have q1: "fieldPhase L W seed ''Genre'' (seedSeen seed, []) s0 = (Some acc1, s1)"
    using p1 a1(1) by simp
  have q2: "guardedPhase L W seed ''Director'' acc1 s1 = (Some acc2, s2)" using p2 a2(1) by simp
  have q3: "guardedPhase L W seed ''Actors'' acc2 s2 = (Some acc3, s3)" using p3 a3(1) by simp
  from q1 q2 q3 r a2(4) a3(4) a1(4) a2(5) a3(5) show ?thesis by blast
qed

lemma phaseLoop_single:
  assumes "collectByGenre L W (TrimSpace L t) perLevel u = (list, u1)"
    "runtimeChoice W u1 = (cs, u2)" "topByRating L cs list perLevel = Some cands"
  shows "phaseLoop L W [t] acc u = (Some (admit cands acc), u2)"
  using assms by simp

lemma fieldPhase_skip:
  "\<not> (\<exists>d. map_of seed field = Some (JString d)) \<Longrightarrow> fieldPhase L W seed field acc u = (Some acc, u)"
  by (auto simp: fieldPhase_def split: option.splits json.splits)

lemma guardedPhase_skip:
  "\<not> (\<exists>d. map_of seed field = Some (JString d)) \<Longrightarrow> guardedPhase L W seed field acc u = (Some acc, u)"
  by (simp add: guardedPhase_def fieldPhase_skip)

lemma recommend_one_call:
  assumes g: "getDetailByTitle W fav s = (Some seed, s0)"
    and one: "(map_of seed ''Genre'' = Some (JString d) \<and> \<not> (\<exists>x. map_of seed ''Director'' = Some (JString x)))
            \<or> (\<not> (\<exists>x. map_of seed ''Genre'' = Some (JString x)) \<and> map_of seed ''Director'' = Some (JString d))"
    and sp: "Split d = [t]"
    and na: "\<not> (\<exists>x. map_of seed ''Actors'' = Some (JString x))"
  shows "\<exists>list s1 cs s2 cands.
           collectByGenre L W (TrimSpace L t) perLevel s0 = (list, s1)
         \<and> runtimeChoice W s1 = (cs, s2)
         \<and> topByRating L cs list perLevel = Some cands \<and> mset cands = mset list
         \<and> (\<forall>m\<in>set list. genreContains L (TrimSpace L t) m)
         \<and> recommend L W fav s =
             (Recommendations (map_of seed ''Title'')
                (map entry (snd (admit cands (seedSeen seed, [])))), s2)"
proof -
  define acc0 :: "string set \<times> detail list" where "acc0 = (seedSeen seed, [])"
  from phaseLoop_step [of L W t s0 "[]" acc0]
  obtain list s1 cs s2 cands where st:
    "collectByGenre L W (TrimSpace L t) perLevel s0 = (list, s1)"
    "runtimeChoice W s1 = (cs, s2)"
    "topByRating L cs list perLevel = Some cands" "mset cands = mset list"
    "\<forall>m\<in>set list. genreContains L (TrimSpace L t) m" by blast
  define acc1 where "acc1 = admit cands acc0"
  have pl: "phaseLoop L W (Split d) acc0 s0 = (Some acc1, s2)"
    unfolding sp acc1_def using st(1-3) by (rule phaseLoop_single)
  have l0: "int (length (snd acc0)) < perLevel" by (simp add: acc0_def perLevel_def)
  have l1: "int (length (snd acc1)) \<le> perLevel" unfolding acc1_def using l0 by (rule admit_len)
  have a3: "guardedPhase L W seed ''Actors'' acc1 s2 = (Some acc1, s2)"
    using na by (rule guardedPhase_skip)
  have "phases L W seed s0 = (Some (snd acc1), s2)"
    using one
  proof
    assume c: "map_of seed ''Genre'' = Some (JString d) \<and> \<not> (\<exists>x. map_of seed ''Director'' = Some (JString x))"
    then have "fieldPhase L W seed ''Genre'' acc0 s0 = (Some acc1, s2)"
      using pl by (simp add: fieldPhase_def)
    moreover have "guardedPhase L W seed ''Director'' acc1 s2 = (Some acc1, s2)"
      using c by (intro guardedPhase_skip) simp
    ultimately show ?thesis using a3 l1 by (simp add: phases_def acc0_def)
  next
    assume c: "\<not> (\<exists>x. map_of seed ''Genre'' = Some (JString x)) \<and> map_of seed ''Director'' = Some (JString d)"
    then have "fieldPhase L W seed ''Genre'' acc0 s0 = (Some acc0, s0)"
      by (intro fieldPhase_skip) simp
    moreover have "guardedPhase L W seed ''Director'' acc0 s0 = (Some acc1, s2)"
      using c pl l0 by (simp add: guardedPhase_def fieldPhase_def)
    ultimately show ?thesis using a3 l1 by (simp add: phases_def acc0_def)
  qed
  then have "recommend L W fav s =
             (Recommendations (map_of seed ''Title'')
                (map entry (snd (admit cands (seedSeen seed, [])))), s2)"
    using g by (simp add: recommend_def acc1_def acc0_def)
  with st show ?thesis by blast
qed

lemma genreContains_Nil: "genreContains L [] = genreIsString"
  by (rule ext) (simp add: genreContains_def genreIsString_def ToLower_Nil split: option.splits json.splits)

subsection \<open>The handler\<close>

lemma recommendHandler_missing: "recommendHandler L W [] s = (BadRequest, s)"
  by (simp add: recommendHandler_def)

lemma recommendHandler_present: "fav \<noteq> [] \<Longrightarrow> recommendHandler L W fav s = recommend L W fav s"
  by (simp add: recommendHandler_def)

section \<open>The claims\<close>

subsection \<open>Title resolver\<close>

text \<open>
  Claim C7. If the direct fetch by title succeeds with Response \<^verbatim>\<open>"True"\<close>,
  \<^verbatim>\<open>getDetailByTitle\<close> returns that record, whatever the provider would answer to a
  search or to a fetch by id: two worlds (of any kind, in any state) whose direct fetch
  gives the same record give the same result. The world is left in the state the direct
  fetch left it in, so no other request was made.
\<close>

theorem getDetailByTitle_direct_hit:
  assumes "fetchTitle W1 title s1 = (Some md, t1)"
    and "fetchTitle W2 title s2 = (Some md, t2)"
    and "map_of md ''Response'' = Some (JString ''True'')"
  shows "getDetailByTitle W1 title s1 = (Some md, t1)
       \<and> getDetailByTitle W2 title s2 = (Some md, t2)"
  using assms by (simp add: getDetailByTitle_def)

theorem getDetailByTitle_direct_hit_witness:
  "fetchTitle catalog ''Heat'' 0 = (Some heat, 1)
   \<and> fetchTitle bareWorld ''Heat'' 7 = (Some heat, 8)
   \<and> map_of heat ''Response'' = Some (JString ''True'')
   \<and> getDetailByTitle catalog ''Heat'' 0 = (Some heat, 1)
   \<and> getDetailByTitle bareWorld ''Heat'' 7 = (Some heat, 8)"
proof -
  have h1: "fetchTitle catalog ''Heat'' 0 = (Some heat, 1)" by code_simp
  have h2: "fetchTitle bareWorld ''Heat'' 7 = (Some heat, 8)" by code_simp
  have h3: "map_of heat ''Response'' = Some (JString ''True'')" by code_simp
  from h1 h2 h3 getDetailByTitle_direct_hit [OF h1 h2 h3] show ?thesis by blast
qed

subsection \<open>Ranker\<close>

text \<open>
  Claim C3, as stated, fails. A rating that parses to NaN is neither above nor below any
  other, so the comparison of \<^verbatim>\<open>topByRating\<close> is no strict weak order and \<^verbatim>\<open>sort.Slice\<close>
  promises no order: the insertion sort it runs on a slice this short leaves the ratings
  1, NaN, 2 as they are, which is not a non-increasing order. And a negative count
  makes \<^verbatim>\<open>list[:n]\<close> panic.
\<close>

theorem topByRating_nan_counterexample:
  "topByRating exampleLib []
      [movie ''a'' ''Drama'' ''1'', movie ''b'' ''Drama'' ''NaN'', movie ''c'' ''Drama'' ''2''] 3
     = Some [movie ''a'' ''Drama'' ''1'', movie ''b'' ''Drama'' ''NaN'', movie ''c'' ''Drama'' ''2'']
   \<and> insertionSort (ratingAbove exampleLib)
       [movie ''a'' ''Drama'' ''1'', movie ''b'' ''Drama'' ''NaN'', movie ''c'' ''Drama'' ''2'']
     = [movie ''a'' ''Drama'' ''1'', movie ''b'' ''Drama'' ''NaN'', movie ''c'' ''Drama'' ''2'']
   \<and> ratingVal exampleLib (movie ''b'' ''Drama'' ''NaN'') = NaN
   \<and> \<not> f64_ge (ratingVal exampleLib (movie ''a'' ''Drama'' ''1''))
              (ratingVal exampleLib (movie ''c'' ''Drama'' ''2''))
   \<and> topByRating exampleLib [] [] (- 1) = None"
  by code_simp

text \<open>
  Claim C3, amended. For a count \<^verbatim>\<open>n\<close> that is not negative, and for every choice the
  runtime makes in the unstable sort, \<^verbatim>\<open>topByRating\<close> returns a list of length at most
  \<^verbatim>\<open>n\<close> whose elements are elements of the input (counted with multiplicity); when no
  rating of the input is a NaN, the list is in non-increasing order of \<^verbatim>\<open>ratingVal\<close>. And
  \<^verbatim>\<open>ratingVal\<close> is 0 for a record whose imdbRating is missing, not a string, empty,
  \<^verbatim>\<open>"N/A"\<close> or rejected by \<^verbatim>\<open>ParseFloat\<close>.
\<close>

theorem topByRating_sorted_prefix:
  assumes "0 \<le> n"
  shows "(\<exists>out. topByRating L cs list n = Some out \<and> int (length out) \<le> n
            \<and> mset out \<subseteq># mset list
            \<and> ((\<forall>m\<in>set list. ratingVal L m \<noteq> NaN)
                 \<longrightarrow> sorted_wrt (\<lambda>a b. f64_ge (ratingVal L a) (ratingVal L b)) out))
       \<and> (\<forall>m. (\<forall>r. map_of m ''imdbRating'' = Some (JString r) \<longrightarrow>
                     r = ''N/A'' \<or> r = [] \<or> ParseFloat L r = None)
               \<longrightarrow> ratingVal L m = Finite 0)"
  using topByRating_ok [OF assms] ratingVal_default by blast

theorem topByRating_sorted_prefix_witness:
  "(0::int) \<le> 2
   \<and> list_all (\<lambda>m. ratingVal exampleLib m \<noteq> NaN)
         [movie ''tt2'' ''Crime'' ''N/A'', heat, movie ''tt1'' ''Action, Drama'' ''8.5'']
   \<and> (\<exists>out. topByRating exampleLib [1, 0]
                [movie ''tt2'' ''Crime'' ''N/A'', heat, movie ''tt1'' ''Action, Drama'' ''8.5''] 2 = Some out
          \<and> int (length out) \<le> 2
          \<and> mset out \<subseteq># mset [movie ''tt2'' ''Crime'' ''N/A'', heat, movie ''tt1'' ''Action, Drama'' ''8.5'']
          \<and> sorted_wrt (\<lambda>a b. f64_ge (ratingVal exampleLib a) (ratingVal exampleLib b)) out)
   \<and> topByRating exampleLib [1, 0]
        [movie ''tt2'' ''Crime'' ''N/A'', heat, movie ''tt1'' ''Action, Drama'' ''8.5''] 2
       = Some [heat, movie ''tt1'' ''Action, Drama'' ''8.5'']
   \<and> map_of (movie ''tt2'' ''Crime'' ''N/A'') ''imdbRating'' = Some (JString ''N/A'')
   \<and> ratingVal exampleLib (movie ''tt2'' ''Crime'' ''N/A'') = Finite 0"
proof -
  have h1: "(0::int) \<le> 2" by simp
  have l: "list_all (\<lambda>m. ratingVal exampleLib m \<noteq> NaN)
         [movie ''tt2'' ''Crime'' ''N/A'', heat, movie ''tt1'' ''Action, Drama'' ''8.5'']"
    by code_simp
  then have h2: "\<forall>m\<in>set [movie ''tt2'' ''Crime'' ''N/A'', heat, movie ''tt1'' ''Action, Drama'' ''8.5''].
         ratingVal exampleLib m \<noteq> NaN"
    by (simp only: list_all_iff)
  note t = topByRating_sorted_prefix [OF h1, of exampleLib "[1, 0]"
      "[movie ''tt2'' ''Crime'' ''N/A'', heat, movie ''tt1'' ''Action, Drama'' ''8.5'']"]
  have c1: "\<exists>out. topByRating exampleLib [1, 0]
                [movie ''tt2'' ''Crime'' ''N/A'', heat, movie ''tt1'' ''Action, Drama'' ''8.5''] 2 = Some out
          \<and> int (length out) \<le> 2
          \<and> mset out \<subseteq># mset [movie ''tt2'' ''Crime'' ''N/A'', heat, movie ''tt1'' ''Action, Drama'' ''8.5'']
          \<and> sorted_wrt (\<lambda>a b. f64_ge (ratingVal exampleLib a) (ratingVal exampleLib b)) out"
    using t h2 by blast
  have c2: "topByRating exampleLib [1, 0]
        [movie ''tt2'' ''Crime'' ''N/A'', heat, movie ''tt1'' ''Action, Drama'' ''8.5''] 2
       = Some [heat, movie ''tt1'' ''Action, Drama'' ''8.5'']" by code_simp
  have h3: "map_of (movie ''tt2'' ''Crime'' ''N/A'') ''imdbRating'' = Some (JString ''N/A'')"
    by code_simp
  then have "\<forall>r. map_of (movie ''tt2'' ''Crime'' ''N/A'') ''imdbRating'' = Some (JString r) \<longrightarrow>
           r = ''N/A'' \<or> r = [] \<or> ParseFloat exampleLib r = None"
    by simp
  then have c3: "ratingVal exampleLib (movie ''tt2'' ''Crime'' ''N/A'') = Finite 0"
    using t by blast
  from h1 l c1 c2 h3 c3 show ?thesis by (intro conjI)
qed

subsection \<open>Keyword candidate collector\<close>

text \<open>
  Claim C5, as stated, fails: \<^verbatim>\<open>found\<close> is keyed by the id of the search hit, and the
  record stored is whatever the provider returns for that id. A provider that returns
  the same record for two hits puts two records with one imdbID into the result.
\<close>

theorem collectByGenre_duplicate_ids_counterexample:
  "imdbIDs (fst (collectByGenre exampleLib echoWorld ''action'' 20 0))
     = [Some (JString ''tt9''), Some (JString ''tt9'')]"
  by code_simp

text \<open>
  Claim C5, amended. For every filter, limit, provider and choice of the runtime, the
  records \<^verbatim>\<open>collectByGenre\<close> returns are the values of \<^verbatim>\<open>found\<close>, whose keys (the ids of
  the search hits they were fetched for) are pairwise different; when every record the
  provider returns for an id carries that id as its imdbID, no two returned records
  have the same imdbID.
\<close>

theorem collectByGenre_distinct_keys:
  "distinct (map fst (fst (collectFound L W gen limit s)))
   \<and> mset (fst (collectByGenre L W gen limit s)) = mset (map snd (fst (collectFound L W gen limit s)))
   \<and> ((\<forall>i t md t'. fetchID W i t = (Some md, t') \<longrightarrow> map_of md ''imdbID'' = Some (JString i))
        \<longrightarrow> distinct (imdbIDs (fst (collectByGenre L W gen limit s))))"
proof (intro conjI impI)
  show d: "distinct (map fst (fst (collectFound L W gen limit s)))"
    unfolding collectFound_def by (rule scanKeywords_distinct) simp
  show "mset (fst (collectByGenre L W gen limit s)) = mset (map snd (fst (collectFound L W gen limit s)))"
    by (rule collectByGenre_mset)
  assume f: "\<forall>i t md t'. fetchID W i t = (Some md, t') \<longrightarrow> map_of md ''imdbID'' = Some (JString i)"
  define found where "found = fst (collectFound L W gen limit s)"
  have "\<forall>e\<in>set (fst (scanKeywords L W gen limit kw [] s)). map_of (snd e) ''imdbID'' = Some (JString (fst e))"
  proof (rule scanKeywords_inv)
    show "\<forall>e\<in>set []. map_of (snd e) ''imdbID'' = Some (JString (fst e))" by simp
  next
    fix i md s s'
    assume "getDetailByID W i s = (Some md, s')"
    then have "fetchID W i s = (Some md, s')"
      by (auto simp: getDetailByID_def split: prod.splits option.splits if_splits)
    then have "map_of md ''imdbID'' = Some (JString i)" using f by blast
    then show "map_of (snd (i, md)) ''imdbID'' = Some (JString (fst (i, md)))" by simp
  qed
  then have "\<forall>e\<in>set found. map_of (snd e) ''imdbID'' = Some (JString (fst e))"
    by (simp only: found_def collectFound_def)
  then have "imdbIDs (map snd found) = map (\<lambda>k. Some (JString k)) (map fst found)"
    by (induction found) (simp_all add: imdbIDs_def)
  moreover have "distinct (map (\<lambda>k. Some (JString k)) (map fst found))"
    using d unfolding found_def by (simp add: distinct_map inj_on_def del: map_map)
  ultimately have "distinct (imdbIDs (map snd found))" by (simp only:)
  moreover have "mset (imdbIDs (fst (collectByGenre L W gen limit s))) = mset (imdbIDs (map snd found))"
    using collectByGenre_mset [of L W gen limit s] unfolding found_def imdbIDs_def
    by (simp only: mset_map)
  ultimately show "distinct (imdbIDs (fst (collectByGenre L W gen limit s)))"
    using mset_eq_imp_distinct_iff by blast
qed

theorem collectByGenre_distinct_keys_witness:
  "\<not> (\<exists>i t md t'. fetchID catalog i t = (Some md, t') \<and> map_of md ''imdbID'' \<noteq> Some (JString i))
   \<and> distinct (imdbIDs (fst (collectByGenre exampleLib catalog ''crime'' 20 0)))
   \<and> imdbIDs (fst (collectByGenre exampleLib catalog ''crime'' 20 0))
       = [Some (JString ''tt0''), Some (JString ''tt2'')]"
proof -
  have h: "\<forall>i t md t'. fetchID catalog i t = (Some md, t') \<longrightarrow> map_of md ''imdbID'' = Some (JString i)"
    by (auto simp: catalog_def countingWorld_def heat_def movie_def split: if_splits)
  then have n: "\<not> (\<exists>i t md t'. fetchID catalog i t = (Some md, t')
                    \<and> map_of md ''imdbID'' \<noteq> Some (JString i))"
    by blast
  have c: "distinct (imdbIDs (fst (collectByGenre exampleLib catalog ''crime'' 20 0)))"
    using collectByGenre_distinct_keys [of exampleLib catalog "''crime''" 20 0] h by blast
  have e: "imdbIDs (fst (collectByGenre exampleLib catalog ''crime'' 20 0))
       = [Some (JString ''tt0''), Some (JString ''tt2'')]" by code_simp
  from n c e show ?thesis by (intro conjI)
qed

text \<open>
  Claim C6, as stated, fails: the key under which a record goes into \<^verbatim>\<open>found\<close> is
  the non-empty id of the search hit, but the record's own imdbID is never looked at, and
  \<^verbatim>\<open>getDetailByID\<close> rejects only the Response \<^verbatim>\<open>"False"\<close>. A record without imdbID whose
  Response is \<^verbatim>\<open>"Maybe"\<close> is inserted.
\<close>

theorem candidate_set_unchecked_counterexample:
  "fst (collectFound exampleLib oddWorld ''action'' 20 0) = [(''tt1'', oddRecord)]
   \<and> map_of oddRecord ''imdbID'' = None
   \<and> map_of oddRecord ''Response'' = Some (JString ''Maybe'')"
  by code_simp

text \<open>
  Claim C6, amended. Every record in \<^verbatim>\<open>found\<close> is stored under a key that is not empty
  (the id of the search hit it was fetched for) and has a Response other than the string
  \<^verbatim>\<open>"False"\<close> (no Response, or any other value). Both loops keep this true from any
  \<^verbatim>\<open>found\<close> of which it is true, so it holds after every insertion, and of the final
  \<^verbatim>\<open>found\<close>, for every provider.
\<close>

theorem candidate_set_invariant:
  "((\<forall>e\<in>set found. fst e \<noteq> [] \<and> map_of (snd e) ''Response'' \<noteq> Some (JString ''False'')) \<longrightarrow>
      (\<forall>e\<in>set (fst (scanItems L W gen limit items found s)).
          fst e \<noteq> [] \<and> map_of (snd e) ''Response'' \<noteq> Some (JString ''False''))
      \<and> (\<forall>e\<in>set (fst (scanKeywords L W gen limit ks found s)).
          fst e \<noteq> [] \<and> map_of (snd e) ''Response'' \<noteq> Some (JString ''False'')))
   \<and> (\<forall>e\<in>set (fst (collectFound L W gen limit s)).
          fst e \<noteq> [] \<and> map_of (snd e) ''Response'' \<noteq> Some (JString ''False''))"
proof -
  have step: "fst (i, md) \<noteq> [] \<and> map_of (snd (i, md)) ''Response'' \<noteq> Some (JString ''False'')"
    if "i \<noteq> []" "getDetailByID W i s = (Some md, s')" for i md and s s' :: 'a
    using that by (auto simp: getDetailByID_def split: prod.splits option.splits if_splits)
  have a: "\<forall>e\<in>set (fst (scanItems L W gen limit items found s)).
          fst e \<noteq> [] \<and> map_of (snd e) ''Response'' \<noteq> Some (JString ''False'')"
    if "\<forall>e\<in>set found. fst e \<noteq> [] \<and> map_of (snd e) ''Response'' \<noteq> Some (JString ''False'')"
    using that step by (rule scanItems_inv)
  have b: "\<forall>e\<in>set (fst (scanKeywords L W gen limit ks found s)).
          fst e \<noteq> [] \<and> map_of (snd e) ''Response'' \<noteq> Some (JString ''False'')"
    if "\<forall>e\<in>set found. fst e \<noteq> [] \<and> map_of (snd e) ''Response'' \<noteq> Some (JString ''False'')"
    for ks found
    using that step by (rule scanKeywords_inv)
  have "\<forall>e\<in>set (fst (collectFound L W gen limit s)).
          fst e \<noteq> [] \<and> map_of (snd e) ''Response'' \<noteq> Some (JString ''False'')"
    unfolding collectFound_def by (rule b) simp
  then show ?thesis using a b by blast
qed

theorem candidate_set_invariant_witness:
  "list_all (\<lambda>e. fst e \<noteq> [] \<and> map_of (snd e) ''Response'' \<noteq> Some (JString ''False''))
     [(''tt0'', heat)]
   \<and> list_all (\<lambda>e. fst e \<noteq> [] \<and> map_of (snd e) ''Response'' \<noteq> Some (JString ''False''))
        (fst (scanItems exampleLib catalog ''crime'' 20 [hit [], hit ''tt2''] [(''tt0'', heat)] 0))
   \<and> fst (scanItems exampleLib catalog ''crime'' 20 [hit [], hit ''tt2''] [(''tt0'', heat)] 0)
       = [(''tt0'', heat), (''tt2'', movie ''tt2'' ''Crime'' ''N/A'')]
   \<and> list_all (\<lambda>e. fst e \<noteq> [] \<and> map_of (snd e) ''Response'' \<noteq> Some (JString ''False''))
        (fst (collectFound exampleLib oddWorld ''action'' 20 0))"
proof -
  have l: "list_all (\<lambda>e. fst e \<noteq> [] \<and> map_of (snd e) ''Response'' \<noteq> Some (JString ''False''))
     [(''tt0'', heat)]"
    by code_simp
  then have h: "\<forall>e\<in>set [(''tt0'', heat)].
      fst e \<noteq> [] \<and> map_of (snd e) ''Response'' \<noteq> Some (JString ''False'')"
    by (simp only: list_all_iff)
  have "\<forall>e\<in>set (fst (scanItems exampleLib catalog ''crime'' 20 [hit [], hit ''tt2''] [(''tt0'', heat)] 0)).
          fst e \<noteq> [] \<and> map_of (snd e) ''Response'' \<noteq> Some (JString ''False'')"
    using candidate_set_invariant
      [of "[(''tt0'', heat)]" exampleLib catalog "''crime''" 20 "[hit [], hit ''tt2'']" 0] h
    by blast
  then have c1: "list_all (\<lambda>e. fst e \<noteq> [] \<and> map_of (snd e) ''Response'' \<noteq> Some (JString ''False''))
        (fst (scanItems exampleLib catalog ''crime'' 20 [hit [], hit ''tt2''] [(''tt0'', heat)] 0))"
    by (simp only: list_all_iff)
  have e: "fst (scanItems exampleLib catalog ''crime'' 20 [hit [], hit ''tt2''] [(''tt0'', heat)] 0)
       = [(''tt0'', heat), (''tt2'', movie ''tt2'' ''Crime'' ''N/A'')]" by code_simp
  have "\<forall>e\<in>set (fst (collectFound exampleLib oddWorld ''action'' 20 0)).
          fst e \<noteq> [] \<and> map_of (snd e) ''Response'' \<noteq> Some (JString ''False'')"
    using candidate_set_invariant [of "[]" exampleLib oddWorld "''action''" 20 "[]" 0] by blast
  then have c2: "list_all (\<lambda>e. fst e \<noteq> [] \<and> map_of (snd e) ''Response'' \<noteq> Some (JString ''False''))
        (fst (collectFound exampleLib oddWorld ''action'' 20 0))"
    by (simp only: list_all_iff)
  from l c1 e c2 show ?thesis by (intro conjI)
qed

text \<open>
  Claim C10. With the empty filter the test of line 179 accepts exactly the records whose
  Genre is a string, whatever the string. So from a provider that answers by tables
  \<^verbatim>\<open>collectByGenre\<close> with the filter \<^verbatim>\<open>""\<close> returns, in some order, the records of the
  distinct hits that have an id, whose fetch succeeds and whose Genre is a string, in the
  order of the searches and up to the limit; and for every provider a hit with a new id
  whose fetch gives such a record is inserted. The empty filter does arise in
  \<^verbatim>\<open>recommend\<close>: a term that trims to \<^verbatim>\<open>""\<close> makes the phase call
  \<^verbatim>\<open>collectByGenre\<close> with \<^verbatim>\<open>""\<close>, and for a seed whose Genre is such a term and that has
  no Director and no Actors the recommendations are what is admitted of the ranked records
  of that one call. Splitting the empty string gives the one term \<^verbatim>\<open>""\<close>.
\<close>

theorem empty_filter_admits_all:
  "(\<forall>md. genreMatch L [] md \<longleftrightarrow> genreIsString md)
   \<and> (\<forall>limit u byID bySearch. answersBy W byID bySearch \<and> 0 < limit \<longrightarrow>
         fst (collectFound L W [] limit u) = expectedFound genreIsString byID bySearch limit
       \<and> mset (fst (collectByGenre L W [] limit u))
           = mset (map snd (expectedFound genreIsString byID bySearch limit)))
   \<and> (\<forall>it items found md s1 s1' limit.
         ImdbID it \<noteq> [] \<and> ImdbID it \<notin> fst ` set found
         \<and> getDetailByID W (ImdbID it) s1 = (Some md, s1') \<and> genreIsString md \<longrightarrow>
         scanItems L W [] limit (it # items) found s1 =
           (if limit \<le> int (length found) + 1 then (found @ [(ImdbID it, md)], s1')
            else scanItems L W [] limit items (found @ [(ImdbID it, md)]) s1'))
   \<and> (\<forall>t ts acc u. TrimSpace L t = [] \<longrightarrow>
         (\<exists>list u1 cs u2 cands.
            collectByGenre L W [] perLevel u = (list, u1)
          \<and> runtimeChoice W u1 = (cs, u2)
          \<and> topByRating L cs list perLevel = Some cands \<and> mset cands = mset list
          \<and> phaseLoop L W (t # ts) acc u =
              (if perLevel \<le> int (length (snd (admit cands acc))) then (Some (admit cands acc), u2)
               else phaseLoop L W ts (admit cands acc) u2)))
   \<and> (\<forall>seed s0 g t.
         getDetailByTitle W fav s = (Some seed, s0)
         \<and> map_of seed ''Genre'' = Some (JString g) \<and> Split g = [t] \<and> TrimSpace L t = []
         \<and> \<not> (\<exists>x. map_of seed ''Director'' = Some (JString x))
         \<and> \<not> (\<exists>x. map_of seed ''Actors'' = Some (JString x)) \<longrightarrow>
         (\<exists>list s1 cs s2 cands.
            collectByGenre L W [] perLevel s0 = (list, s1)
          \<and> runtimeChoice W s1 = (cs, s2)
          \<and> topByRating L cs list perLevel = Some cands \<and> mset cands = mset list
          \<and> recommend L W fav s =
              (Recommendations (map_of seed ''Title'')
                 (map entry (snd (admit cands (seedSeen seed, [])))), s2)))
   \<and> Split [] = [[]] \<and> TrimSpace L [] = []"
proof (intro conjI allI impI)
  fix md
  show "genreMatch L [] md \<longleftrightarrow> genreIsString md"
    by (simp add: genreMatch_contains genreContains_Nil)
next
  fix limit :: int and u byID bySearch
  assume a: "answersBy W byID bySearch \<and> 0 < limit"
  then show e: "fst (collectFound L W [] limit u) = expectedFound genreIsString byID bySearch limit"
    using collectFound_exact [of W byID bySearch limit L "[]" u] by (simp add: genreContains_Nil)
  show "mset (fst (collectByGenre L W [] limit u))
           = mset (map snd (expectedFound genreIsString byID bySearch limit))"
    using collectByGenre_mset [of L W "[]" limit u] e by simp
next
  fix it :: searchItem and items and found :: candidates and md s1 s1' limit
  assume a: "ImdbID it \<noteq> [] \<and> ImdbID it \<notin> fst ` set found
         \<and> getDetailByID W (ImdbID it) s1 = (Some md, s1') \<and> genreIsString md"
  then have "genreMatch L [] md" by (simp add: genreMatch_contains genreContains_Nil)
  then show "scanItems L W [] limit (it # items) found s1 =
           (if limit \<le> int (length found) + 1 then (found @ [(ImdbID it, md)], s1')
            else scanItems L W [] limit items (found @ [(ImdbID it, md)]) s1')"
    using a scanItems_one [of it found W s1 md s1' L "[]" limit items] by simp
next
  fix t ts acc u
  assume t: "TrimSpace L t = []"
  from phaseLoop_step [of L W t u ts acc]
  obtain list u1 cs u2 cands where
    "collectByGenre L W (TrimSpace L t) perLevel u = (list, u1)"
    "runtimeChoice W u1 = (cs, u2)"
    "topByRating L cs list perLevel = Some cands" "mset cands = mset list"
    "phaseLoop L W (t # ts) acc u =
        (if perLevel \<le> int (length (snd (admit cands acc))) then (Some (admit cands acc), u2)
         else phaseLoop L W ts (admit cands acc) u2)" by blast
  then show "\<exists>list u1 cs u2 cands.
            collectByGenre L W [] perLevel u = (list, u1)
          \<and> runtimeChoice W u1 = (cs, u2)
          \<and> topByRating L cs list perLevel = Some cands \<and> mset cands = mset list
          \<and> phaseLoop L W (t # ts) acc u =
              (if perLevel \<le> int (length (snd (admit cands acc))) then (Some (admit cands acc), u2)
               else phaseLoop L W ts (admit cands acc) u2)"
    unfolding t by blast
next
  fix seed s0 g t
  assume a: "getDetailByTitle W fav s = (Some seed, s0)
         \<and> map_of seed ''Genre'' = Some (JString g) \<and> Split g = [t] \<and> TrimSpace L t = []
         \<and> \<not> (\<exists>x. map_of seed ''Director'' = Some (JString x))
         \<and> \<not> (\<exists>x. map_of seed ''Actors'' = Some (JString x))"
  then have g: "getDetailByTitle W fav s = (Some seed, s0)"
    and one: "(map_of seed ''Genre'' = Some (JString g) \<and> \<not> (\<exists>x. map_of seed ''Director'' = Some (JString x)))
            \<or> (\<not> (\<exists>x. map_of seed ''Genre'' = Some (JString x)) \<and> map_of seed ''Director'' = Some (JString g))"
    and sp: "Split g = [t]" and t: "TrimSpace L t = []"
    and na: "\<not> (\<exists>x. map_of seed ''Actors'' = Some (JString x))" by simp_all
  from recommend_one_call [OF g one sp na, of L]
  obtain list s1 cs s2 cands where
    "collectByGenre L W (TrimSpace L t) perLevel s0 = (list, s1)"
    "runtimeChoice W s1 = (cs, s2)"
    "topByRating L cs list perLevel = Some cands" "mset cands = mset list"
    "recommend L W fav s =
       (Recommendations (map_of seed ''Title'') (map entry (snd (admit cands (seedSeen seed, [])))), s2)"
    by blast
  then show "\<exists>list s1 cs s2 cands.
            collectByGenre L W [] perLevel s0 = (list, s1)
          \<and> runtimeChoice W s1 = (cs, s2)
          \<and> topByRating L cs list perLevel = Some cands \<and> mset cands = mset list
          \<and> recommend L W fav s =
              (Recommendations (map_of seed ''Title'')
                 (map entry (snd (admit cands (seedSeen seed, [])))), s2)"
    unfolding t by blast
next
  show "Split [] = [[]]" by simp
next
  show "TrimSpace L [] = []" by simp
qed

theorem empty_filter_admits_all_witness:
  "answersBy shelf shelfByID shelfBySearch \<and> (0::int) < 20
   \<and> fst (collectFound exampleLib shelf [] 20 0) = expectedFound genreIsString shelfByID shelfBySearch 20
   \<and> mset (fst (collectByGenre exampleLib shelf [] 20 0))
       = mset (map snd (expectedFound genreIsString shelfByID shelfBySearch 20))
   \<and> expectedFound genreIsString shelfByID shelfBySearch 20
       = [(''tt0'', heat), (''tt1'', movie ''tt1'' ''Action, Drama'' ''8.5''),
          (''tt2'', movie ''tt2'' ''Crime'' ''N/A'')]
   \<and> fst (collectByGenre exampleLib shelf [] 20 0)
       = [heat, movie ''tt1'' ''Action, Drama'' ''8.5'', movie ''tt2'' ''Crime'' ''N/A'']
   \<and> answersBy shelf shelfByID shelfBySearch \<and> (0::int) < 2
   \<and> fst (collectFound exampleLib shelf [] 2 0) = expectedFound genreIsString shelfByID shelfBySearch 2
   \<and> expectedFound genreIsString shelfByID shelfBySearch 2
       = [(''tt0'', heat), (''tt1'', movie ''tt1'' ''Action, Drama'' ''8.5'')]
   \<and> ImdbID (hit ''tt2'') \<noteq> [] \<and> ImdbID (hit ''tt2'') \<notin> fst ` set [(''tt0'', heat)]
   \<and> getDetailByID shelf (ImdbID (hit ''tt2'')) 4 = (Some (movie ''tt2'' ''Crime'' ''N/A''), 5)
   \<and> genreIsString (movie ''tt2'' ''Crime'' ''N/A'')
   \<and> scanItems exampleLib shelf [] 20 [hit ''tt2''] [(''tt0'', heat)] 4
       = ([(''tt0'', heat), (''tt2'', movie ''tt2'' ''Crime'' ''N/A'')], 5)
   \<and> genreMatch exampleLib [] (movie ''tt2'' ''Crime'' ''N/A'')
   \<and> \<not> genreMatch exampleLib [] plain
   \<and> TrimSpace exampleLib '' '' = []
   \<and> (\<exists>list u1 cs u2 cands.
         collectByGenre exampleLib shelf [] perLevel 0 = (list, u1)
       \<and> runtimeChoice shelf u1 = (cs, u2)
       \<and> topByRating exampleLib cs list perLevel = Some cands \<and> mset cands = mset list
       \<and> phaseLoop exampleLib shelf ['' ''] ({}, []) 0 =
           (if perLevel \<le> int (length (snd (admit cands ({}, [])))) then (Some (admit cands ({}, [])), u2)
            else phaseLoop exampleLib shelf [] (admit cands ({}, [])) u2))
   \<and> getDetailByTitle shelf ''Untitled'' 0 = (Some untitled, 1)
   \<and> map_of untitled ''Genre'' = Some (JString []) \<and> Split [] = [[]]
   \<and> TrimSpace exampleLib [] = []
   \<and> \<not> (\<exists>x. map_of untitled ''Director'' = Some (JString x))
   \<and> \<not> (\<exists>x. map_of untitled ''Actors'' = Some (JString x))
   \<and> (\<exists>list s1 cs s2 cands.
         collectByGenre exampleLib shelf [] perLevel 1 = (list, s1)
       \<and> runtimeChoice shelf s1 = (cs, s2)
       \<and> topByRating exampleLib cs list perLevel = Some cands \<and> mset cands = mset list
       \<and> recommend exampleLib shelf ''Untitled'' 0 =
           (Recommendations (map_of untitled ''Title'')
              (map entry (snd (admit cands (seedSeen untitled, [])))), s2))
   \<and> fst (recommend exampleLib shelf ''Untitled'' 0)
       = Recommendations (Some (JString ''Untitled''))
           (map entry [heat, movie ''tt1'' ''Action, Drama'' ''8.5'', movie ''tt2'' ''Crime'' ''N/A''])"
proof -
  note t = empty_filter_admits_all [of exampleLib shelf "''Untitled''" 0]
  note t1 = t [THEN conjunct1]
  note t2 = t [THEN conjunct2, THEN conjunct1]
  note t3 = t [THEN conjunct2, THEN conjunct2, THEN conjunct1]
  note t4 = t [THEN conjunct2, THEN conjunct2, THEN conjunct2, THEN conjunct1]
  note t5 = t [THEN conjunct2, THEN conjunct2, THEN conjunct2, THEN conjunct2, THEN conjunct1]
  have ab: "answersBy shelf shelfByID shelfBySearch"
    by (simp add: answersBy_def shelf_def countingWorld_def)
  have h20: "answersBy shelf shelfByID shelfBySearch \<and> (0::int) < 20" using ab by simp
  have h2: "answersBy shelf shelfByID shelfBySearch \<and> (0::int) < 2" using ab by simp
  have c20: "fst (collectFound exampleLib shelf [] 20 0) = expectedFound genreIsString shelfByID shelfBySearch 20
     \<and> mset (fst (collectByGenre exampleLib shelf [] 20 0))
       = mset (map snd (expectedFound genreIsString shelfByID shelfBySearch 20))"
    using t2 h20 by blast
  have e20: "expectedFound genreIsString shelfByID shelfBySearch 20
       = [(''tt0'', heat), (''tt1'', movie ''tt1'' ''Action, Drama'' ''8.5''),
          (''tt2'', movie ''tt2'' ''Crime'' ''N/A'')]" by code_simp
  have g20: "fst (collectByGenre exampleLib shelf [] 20 0)
       = [heat, movie ''tt1'' ''Action, Drama'' ''8.5'', movie ''tt2'' ''Crime'' ''N/A'']" by code_simp
  have c2: "fst (collectFound exampleLib shelf [] 2 0) = expectedFound genreIsString shelfByID shelfBySearch 2"
    using t2 h2 by blast
  have e2: "expectedFound genreIsString shelfByID shelfBySearch 2
       = [(''tt0'', heat), (''tt1'', movie ''tt1'' ''Action, Drama'' ''8.5'')]" by code_simp
  have h: "ImdbID (hit ''tt2'') \<noteq> [] \<and> ImdbID (hit ''tt2'') \<notin> fst ` set [(''tt0'', heat)]
   \<and> getDetailByID shelf (ImdbID (hit ''tt2'')) 4 = (Some (movie ''tt2'' ''Crime'' ''N/A''), 5)
   \<and> genreIsString (movie ''tt2'' ''Crime'' ''N/A'')"
    by code_simp
  have "scanItems exampleLib shelf [] 20 (hit ''tt2'' # []) [(''tt0'', heat)] 4 =
           (if 20 \<le> int (length [(''tt0'', heat)]) + 1
            then ([(''tt0'', heat)] @ [(ImdbID (hit ''tt2''), movie ''tt2'' ''Crime'' ''N/A'')], 5)
            else scanItems exampleLib shelf [] 20 []
                   ([(''tt0'', heat)] @ [(ImdbID (hit ''tt2''), movie ''tt2'' ''Crime'' ''N/A'')]) 5)"
    using t3 h by blast
  then have c3: "scanItems exampleLib shelf [] 20 [hit ''tt2''] [(''tt0'', heat)] 4
       = ([(''tt0'', heat), (''tt2'', movie ''tt2'' ''Crime'' ''N/A'')], 5)"
    by (simp add: hit_def)
  have c4: "genreMatch exampleLib [] (movie ''tt2'' ''Crime'' ''N/A'')" using t1 h by blast
  have np: "\<not> genreIsString plain" by code_simp
  have c5: "\<not> genreMatch exampleLib [] plain" using t1 np by blast
  have ht: "TrimSpace exampleLib '' '' = []" by code_simp
  have c6: "\<exists>list u1 cs u2 cands.
         collectByGenre exampleLib shelf [] perLevel 0 = (list, u1)
       \<and> runtimeChoice shelf u1 = (cs, u2)
       \<and> topByRating exampleLib cs list perLevel = Some cands \<and> mset cands = mset list
       \<and> phaseLoop exampleLib shelf ['' ''] ({}, []) 0 =
           (if perLevel \<le> int (length (snd (admit cands ({}, [])))) then (Some (admit cands ({}, [])), u2)
            else phaseLoop exampleLib shelf [] (admit cands ({}, [])) u2)"
    using t4 ht by blast
  have hs: "getDetailByTitle shelf ''Untitled'' 0 = (Some untitled, 1)" by code_simp
  have hg: "map_of untitled ''Genre'' = Some (JString [])" by code_simp
  have hsp: "Split [] = [[]]" by simp
  have htr: "TrimSpace exampleLib [] = []" by simp
  have hd: "\<not> (\<exists>x. map_of untitled ''Director'' = Some (JString x))" by (simp add: untitled_def)
  have ha: "\<not> (\<exists>x. map_of untitled ''Actors'' = Some (JString x))" by (simp add: untitled_def)
  have c7: "\<exists>list s1 cs s2 cands.
         collectByGenre exampleLib shelf [] perLevel 1 = (list, s1)
       \<and> runtimeChoice shelf s1 = (cs, s2)
       \<and> topByRating exampleLib cs list perLevel = Some cands \<and> mset cands = mset list
       \<and> recommend exampleLib shelf ''Untitled'' 0 =
           (Recommendations (map_of untitled ''Title'')
              (map entry (snd (admit cands (seedSeen untitled, [])))), s2)"
    using t5 hs hg hsp htr hd ha by blast
  have e7: "fst (recommend exampleLib shelf ''Untitled'' 0)
       = Recommendations (Some (JString ''Untitled''))
           (map entry [heat, movie ''tt1'' ''Action, Drama'' ''8.5'', movie ''tt2'' ''Crime'' ''N/A''])"
    by code_simp
  from h20 c20 e20 g20 h2 c2 e2 h c3 c4 c5 ht c6 hs hg hsp htr hd ha c7 e7
  show ?thesis by (intro conjI) (elim conjE, assumption)+
qed

subsection \<open>Recommendation orchestrator\<close>

text \<open>
  Claim C1. For a resolved seed the answer of \<^verbatim>\<open>recommend\<close> is the result of the genre
  phase, then the director phase, then the actor phase, and what the genre (director,
  actor) phase adds are records whose Genre contains, case ignored, one of the trimmed
  terms of the seed's Genre (Director, Actors) field. A phase that is entered runs \<^verbatim>\<open>phaseLoop\<close> over the
  terms of its field, the genre phase as the two others; \<^verbatim>\<open>phaseLoop\<close> calls
  \<^verbatim>\<open>collectByGenre\<close> with the trimmed term as the filter and hands its records, ranked,
  to the admission loop. For a seed whose only string field is Director, with one name,
  the recommendations are what is admitted of the ranked records of the one call of
  \<^verbatim>\<open>collectByGenre\<close> with that name. From a provider that answers by tables
  \<^verbatim>\<open>collectByGenre\<close> returns, in some order, the records of the distinct hits that have an
  id, whose fetch succeeds and whose Genre contains the filter, up to the limit, and no
  others; for every provider a fetched record for a new, non-empty id is inserted exactly
  when its Genre contains the filter. Two records with the same Genre field pass or fail
  the test together, whatever their Director and Actors fields are.
\<close>

theorem fallback_phases_filter_on_genre:
  "(\<forall>seed s0. getDetailByTitle W fav s = (Some seed, s0) \<longrightarrow>
      (\<exists>acc1 s1 acc2 s2 acc3 s3 D A.
          fieldPhase L W seed ''Genre'' (seedSeen seed, []) s0 = (Some acc1, s1)
        \<and> guardedPhase L W seed ''Director'' acc1 s1 = (Some acc2, s2)
        \<and> guardedPhase L W seed ''Actors'' acc2 s2 = (Some acc3, s3)
        \<and> recommend L W fav s
            = (Recommendations (map_of seed ''Title'') (map entry (snd acc3)), s3)
        \<and> snd acc2 = snd acc1 @ D \<and> snd acc3 = snd acc2 @ A
        \<and> (\<forall>m\<in>set (snd acc1). \<exists>d t. map_of seed ''Genre'' = Some (JString d) \<and> t \<in> set (Split d)
                            \<and> genreContains L (TrimSpace L t) m)
        \<and> (\<forall>m\<in>set D. \<exists>d t. map_of seed ''Director'' = Some (JString d) \<and> t \<in> set (Split d)
                            \<and> genreContains L (TrimSpace L t) m)
        \<and> (\<forall>m\<in>set A. \<exists>d t. map_of seed ''Actors'' = Some (JString d) \<and> t \<in> set (Split d)
                            \<and> genreContains L (TrimSpace L t) m)))
   \<and> (\<forall>seed field acc u.
         guardedPhase L W seed field acc u =
           (if perLevel \<le> int (length (snd acc)) then (Some acc, u)
            else (case map_of seed field of
                    Some (JString d) \<Rightarrow> phaseLoop L W (Split d) acc u
                  | _ \<Rightarrow> (Some acc, u)))
       \<and> fieldPhase L W seed ''Genre'' acc u =
           (case map_of seed ''Genre'' of
              Some (JString g) \<Rightarrow> phaseLoop L W (Split g) acc u
            | _ \<Rightarrow> (Some acc, u)))
   \<and> (\<forall>t ts acc u. \<exists>list u1 cs u2 cands.
         collectByGenre L W (TrimSpace L t) perLevel u = (list, u1)
       \<and> runtimeChoice W u1 = (cs, u2)
       \<and> topByRating L cs list perLevel = Some cands \<and> mset cands = mset list
       \<and> (\<forall>m\<in>set list. genreContains L (TrimSpace L t) m)
       \<and> phaseLoop L W (t # ts) acc u =
           (if perLevel \<le> int (length (snd (admit cands acc))) then (Some (admit cands acc), u2)
            else phaseLoop L W ts (admit cands acc) u2))
   \<and> (\<forall>seed s0 d t.
         getDetailByTitle W fav s = (Some seed, s0)
         \<and> \<not> (\<exists>x. map_of seed ''Genre'' = Some (JString x))
         \<and> map_of seed ''Director'' = Some (JString d) \<and> Split d = [t]
         \<and> \<not> (\<exists>x. map_of seed ''Actors'' = Some (JString x)) \<longrightarrow>
         (\<exists>list s1 cs s2 cands.
            collectByGenre L W (TrimSpace L t) perLevel s0 = (list, s1)
          \<and> runtimeChoice W s1 = (cs, s2)
          \<and> topByRating L cs list perLevel = Some cands \<and> mset cands = mset list
          \<and> (\<forall>m\<in>set list. genreContains L (TrimSpace L t) m)
          \<and> recommend L W fav s =
              (Recommendations (map_of seed ''Title'')
                 (map entry (snd (admit cands (seedSeen seed, [])))), s2)))
   \<and> (\<forall>flt limit u byID bySearch. answersBy W byID bySearch \<and> 0 < limit \<longrightarrow>
         fst (collectFound L W flt limit u) = expectedFound (genreContains L flt) byID bySearch limit
       \<and> mset (fst (collectByGenre L W flt limit u))
           = mset (map snd (expectedFound (genreContains L flt) byID bySearch limit)))
   \<and> (\<forall>it items found md s1 s1' flt limit.
         ImdbID it \<noteq> [] \<and> ImdbID it \<notin> fst ` set found
         \<and> getDetailByID W (ImdbID it) s1 = (Some md, s1') \<longrightarrow>
         scanItems L W flt limit (it # items) found s1 =
           (if genreContains L flt md
            then (if limit \<le> int (length found) + 1 then (found @ [(ImdbID it, md)], s1')
                  else scanItems L W flt limit items (found @ [(ImdbID it, md)]) s1')
            else scanItems L W flt limit items found s1'))
   \<and> (\<forall>flt md md'. map_of md ''Genre'' = map_of md' ''Genre''
         \<longrightarrow> genreMatch L flt md = genreMatch L flt md')"
proof (intro conjI allI impI)
  fix seed s0
  assume g: "getDetailByTitle W fav s = (Some seed, s0)"
  show "\<exists>acc1 s1 acc2 s2 acc3 s3 D A.
          fieldPhase L W seed ''Genre'' (seedSeen seed, []) s0 = (Some acc1, s1)
        \<and> guardedPhase L W seed ''Director'' acc1 s1 = (Some acc2, s2)
        \<and> guardedPhase L W seed ''Actors'' acc2 s2 = (Some acc3, s3)
        \<and> recommend L W fav s
            = (Recommendations (map_of seed ''Title'') (map entry (snd acc3)), s3)
        \<and> snd acc2 = snd acc1 @ D \<and> snd acc3 = snd acc2 @ A
        \<and> (\<forall>m\<in>set (snd acc1). \<exists>d t. map_of seed ''Genre'' = Some (JString d) \<and> t \<in> set (Split d)
                            \<and> genreContains L (TrimSpace L t) m)
        \<and> (\<forall>m\<in>set D. \<exists>d t. map_of seed ''Director'' = Some (JString d) \<and> t \<in> set (Split d)
                            \<and> genreContains L (TrimSpace L t) m)
        \<and> (\<forall>m\<in>set A. \<exists>d t. map_of seed ''Actors'' = Some (JString d) \<and> t \<in> set (Split d)
                            \<and> genreContains L (TrimSpace L t) m)"
    using recommend_chain [OF g, of L] unfolding fieldMatch_contains .
next
  fix seed field and acc :: "string set \<times> detail list" and u
  show "guardedPhase L W seed field acc u =
           (if perLevel \<le> int (length (snd acc)) then (Some acc, u)
            else (case map_of seed field of
                    Some (JString d) \<Rightarrow> phaseLoop L W (Split d) acc u
                  | _ \<Rightarrow> (Some acc, u)))"
    by (rule guardedPhase_eq)
  show "fieldPhase L W seed ''Genre'' acc u =
           (case map_of seed ''Genre'' of
              Some (JString g) \<Rightarrow> phaseLoop L W (Split g) acc u
            | _ \<Rightarrow> (Some acc, u))"
    by (rule fieldPhase_eq)
next
  fix t ts and acc :: "string set \<times> detail list" and u
  show "\<exists>list u1 cs u2 cands.
         collectByGenre L W (TrimSpace L t) perLevel u = (list, u1)
       \<and> runtimeChoice W u1 = (cs, u2)
       \<and> topByRating L cs list perLevel = Some cands \<and> mset cands = mset list
       \<and> (\<forall>m\<in>set list. genreContains L (TrimSpace L t) m)
       \<and> phaseLoop L W (t # ts) acc u =
           (if perLevel \<le> int (length (snd (admit cands acc))) then (Some (admit cands acc), u2)
            else phaseLoop L W ts (admit cands acc) u2)"
    by (rule phaseLoop_step)
next
  fix seed s0 d t
  assume a: "getDetailByTitle W fav s = (Some seed, s0)
         \<and> \<not> (\<exists>x. map_of seed ''Genre'' = Some (JString x))
         \<and> map_of seed ''Director'' = Some (JString d) \<and> Split d = [t]
         \<and> \<not> (\<exists>x. map_of seed ''Actors'' = Some (JString x))"
  then have g: "getDetailByTitle W fav s = (Some seed, s0)"
    and one: "(map_of seed ''Genre'' = Some (JString d) \<and> \<not> (\<exists>x. map_of seed ''Director'' = Some (JString x)))
            \<or> (\<not> (\<exists>x. map_of seed ''Genre'' = Some (JString x)) \<and> map_of seed ''Director'' = Some (JString d))"
    and sp: "Split d = [t]"
    and na: "\<not> (\<exists>x. map_of seed ''Actors'' = Some (JString x))" by simp_all
  show "\<exists>list s1 cs s2 cands.
            collectByGenre L W (TrimSpace L t) perLevel s0 = (list, s1)
          \<and> runtimeChoice W s1 = (cs, s2)
          \<and> topByRating L cs list perLevel = Some cands \<and> mset cands = mset list
          \<and> (\<forall>m\<in>set list. genreContains L (TrimSpace L t) m)
          \<and> recommend L W fav s =
              (Recommendations (map_of seed ''Title'')
                 (map entry (snd (admit cands (seedSeen seed, [])))), s2)"
    using g one sp na by (rule recommend_one_call)
next
  fix flt and limit :: int and u byID bySearch
  assume a: "answersBy W byID bySearch \<and> 0 < limit"
  then show e: "fst (collectFound L W flt limit u)
                  = expectedFound (genreContains L flt) byID bySearch limit"
    using collectFound_exact [of W byID bySearch limit L flt u] by simp
  show "mset (fst (collectByGenre L W flt limit u))
           = mset (map snd (expectedFound (genreContains L flt) byID bySearch limit))"
    using collectByGenre_mset [of L W flt limit u] e by simp
next
  fix it :: searchItem and items and found :: candidates and md s1 s1' flt limit
  assume a: "ImdbID it \<noteq> [] \<and> ImdbID it \<notin> fst ` set found
         \<and> getDetailByID W (ImdbID it) s1 = (Some md, s1')"
  then have "scanItems L W flt limit (it # items) found s1 =
           (if genreMatch L flt md
            then (if limit \<le> int (length found) + 1 then (found @ [(ImdbID it, md)], s1')
                  else scanItems L W flt limit items (found @ [(ImdbID it, md)]) s1')
            else scanItems L W flt limit items found s1')"
    by (intro scanItems_one) simp_all
  then show "scanItems L W flt limit (it # items) found s1 =
           (if genreContains L flt md
            then (if limit \<le> int (length found) + 1 then (found @ [(ImdbID it, md)], s1')
                  else scanItems L W flt limit items (found @ [(ImdbID it, md)]) s1')
            else scanItems L W flt limit items found s1')"
    by (simp only: genreMatch_contains)
next
  fix flt and md md' :: detail
  assume "map_of md ''Genre'' = map_of md' ''Genre''"
  then show "genreMatch L flt md = genreMatch L flt md'"
    by (simp add: genreMatch_def)
qed

theorem fallback_phases_filter_on_genre_witness:
  "getDetailByTitle shelf ''Crash'' 0 = (Some crash, 1)
   \<and> (\<exists>acc1 s1 acc2 s2 acc3 s3 D A.
          fieldPhase exampleLib shelf crash ''Genre'' (seedSeen crash, []) 1 = (Some acc1, s1)
        \<and> guardedPhase exampleLib shelf crash ''Director'' acc1 s1 = (Some acc2, s2)
        \<and> guardedPhase exampleLib shelf crash ''Actors'' acc2 s2 = (Some acc3, s3)
        \<and> recommend exampleLib shelf ''Crash'' 0
            = (Recommendations (map_of crash ''Title'') (map entry (snd acc3)), s3)
        \<and> snd acc2 = snd acc1 @ D \<and> snd acc3 = snd acc2 @ A
        \<and> (\<forall>m\<in>set (snd acc1). \<exists>d t. map_of crash ''Genre'' = Some (JString d) \<and> t \<in> set (Split d)
                            \<and> genreContains exampleLib (TrimSpace exampleLib t) m)
        \<and> (\<forall>m\<in>set D. \<exists>d t. map_of crash ''Director'' = Some (JString d) \<and> t \<in> set (Split d)
                            \<and> genreContains exampleLib (TrimSpace exampleLib t) m)
        \<and> (\<forall>m\<in>set A. \<exists>d t. map_of crash ''Actors'' = Some (JString d) \<and> t \<in> set (Split d)
                            \<and> genreContains exampleLib (TrimSpace exampleLib t) m))
   \<and> snd (the (fst (fieldPhase exampleLib shelf crash ''Genre'' (seedSeen crash, []) 1)))
       = [heat, movie ''tt1'' ''Action, Drama'' ''8.5'']
   \<and> fst (recommend exampleLib shelf ''Crash'' 0)
       = Recommendations (Some (JString ''Crash''))
           (map entry ([heat, movie ''tt1'' ''Action, Drama'' ''8.5''] @ []
                       @ [movie ''tt2'' ''Crime'' ''N/A'']))
   \<and> getDetailByTitle shelf ''Directed'' 0 = (Some directed, 1)
   \<and> \<not> (\<exists>x. map_of directed ''Genre'' = Some (JString x))
   \<and> map_of directed ''Director'' = Some (JString ''Drama'') \<and> Split ''Drama'' = [''Drama'']
   \<and> \<not> (\<exists>x. map_of directed ''Actors'' = Some (JString x))
   \<and> (\<exists>list s1 cs s2 cands.
         collectByGenre exampleLib shelf (TrimSpace exampleLib ''Drama'') perLevel 1 = (list, s1)
       \<and> runtimeChoice shelf s1 = (cs, s2)
       \<and> topByRating exampleLib cs list perLevel = Some cands \<and> mset cands = mset list
       \<and> (\<forall>m\<in>set list. genreContains exampleLib (TrimSpace exampleLib ''Drama'') m)
       \<and> recommend exampleLib shelf ''Directed'' 0 =
           (Recommendations (map_of directed ''Title'')
              (map entry (snd (admit cands (seedSeen directed, [])))), s2))
   \<and> fst (recommend exampleLib shelf ''Directed'' 0)
       = Recommendations (Some (JString ''Directed''))
           (map entry [movie ''tt1'' ''Action, Drama'' ''8.5''])
   \<and> map_of plain ''Director'' = Some (JString ''Drama'')
   \<and> answersBy shelf shelfByID shelfBySearch \<and> (0::int) < 20
   \<and> fst (collectFound exampleLib shelf ''Drama'' 20 0)
       = expectedFound (genreContains exampleLib ''Drama'') shelfByID shelfBySearch 20
   \<and> mset (fst (collectByGenre exampleLib shelf ''Drama'' 20 0))
       = mset (map snd (expectedFound (genreContains exampleLib ''Drama'') shelfByID shelfBySearch 20))
   \<and> expectedFound (genreContains exampleLib ''Drama'') shelfByID shelfBySearch 20
       = [(''tt1'', movie ''tt1'' ''Action, Drama'' ''8.5'')]
   \<and> fst (collectByGenre exampleLib shelf ''Drama'' 20 0) = [movie ''tt1'' ''Action, Drama'' ''8.5'']
   \<and> ImdbID (hit ''tt3'') \<noteq> [] \<and> ImdbID (hit ''tt3'') \<notin> fst ` set [(''tt0'', heat)]
   \<and> getDetailByID shelf (ImdbID (hit ''tt3'')) 4 = (Some plain, 5)
   \<and> scanItems exampleLib shelf ''drama'' 20 [hit ''tt3'', hit ''tt1''] [(''tt0'', heat)] 4
       = scanItems exampleLib shelf ''drama'' 20 [hit ''tt1''] [(''tt0'', heat)] 5
   \<and> scanItems exampleLib shelf ''drama'' 20 [hit ''tt3'', hit ''tt1''] [(''tt0'', heat)] 4
       = ([(''tt0'', heat), (''tt1'', movie ''tt1'' ''Action, Drama'' ''8.5'')], 6)
   \<and> map_of (movie ''tt2'' ''Crime'' ''N/A'') ''Genre''
       = map_of [(''Genre'', JString ''Crime''), (''Director'', JString ''Crime'')] ''Genre''
   \<and> genreMatch exampleLib ''crime'' (movie ''tt2'' ''Crime'' ''N/A'')
       = genreMatch exampleLib ''crime'' [(''Genre'', JString ''Crime''), (''Director'', JString ''Crime'')]"
proof -
  note t = fallback_phases_filter_on_genre [of shelf "''Crash''" 0 exampleLib]
  note t1 = t [THEN conjunct1]
  note u = fallback_phases_filter_on_genre [of shelf "''Directed''" 0 exampleLib]
  note u4 = u [THEN conjunct2, THEN conjunct2, THEN conjunct2, THEN conjunct1]
  note t5 = t [THEN conjunct2, THEN conjunct2, THEN conjunct2, THEN conjunct2, THEN conjunct1]
  note t6 = t [THEN conjunct2, THEN conjunct2, THEN conjunct2, THEN conjunct2, THEN conjunct2,
               THEN conjunct1]
  note t7 = t [THEN conjunct2, THEN conjunct2, THEN conjunct2, THEN conjunct2, THEN conjunct2,
               THEN conjunct2]
  have h1: "getDetailByTitle shelf ''Crash'' 0 = (Some crash, 1)" by code_simp
  have c1: "\<exists>acc1 s1 acc2 s2 acc3 s3 D A.
          fieldPhase exampleLib shelf crash ''Genre'' (seedSeen crash, []) 1 = (Some acc1, s1)
        \<and> guardedPhase exampleLib shelf crash ''Director'' acc1 s1 = (Some acc2, s2)
        \<and> guardedPhase exampleLib shelf crash ''Actors'' acc2 s2 = (Some acc3, s3)
        \<and> recommend exampleLib shelf ''Crash'' 0
            = (Recommendations (map_of crash ''Title'') (map entry (snd acc3)), s3)
        \<and> snd acc2 = snd acc1 @ D \<and> snd acc3 = snd acc2 @ A
        \<and> (\<forall>m\<in>set (snd acc1). \<exists>d t. map_of crash ''Genre'' = Some (JString d) \<and> t \<in> set (Split d)
                            \<and> genreContains exampleLib (TrimSpace exampleLib t) m)
        \<and> (\<forall>m\<in>set D. \<exists>d t. map_of crash ''Director'' = Some (JString d) \<and> t \<in> set (Split d)
                            \<and> genreContains exampleLib (TrimSpace exampleLib t) m)
        \<and> (\<forall>m\<in>set A. \<exists>d t. map_of crash ''Actors'' = Some (JString d) \<and> t \<in> set (Split d)
                            \<and> genreContains exampleLib (TrimSpace exampleLib t) m)"
    using t1 [rule_format, OF h1] .
  have e0: "snd (the (fst (fieldPhase exampleLib shelf crash ''Genre'' (seedSeen crash, []) 1)))
       = [heat, movie ''tt1'' ''Action, Drama'' ''8.5'']" by code_simp
  have e1: "fst (recommend exampleLib shelf ''Crash'' 0)
       = Recommendations (Some (JString ''Crash''))
           (map entry ([heat, movie ''tt1'' ''Action, Drama'' ''8.5''] @ []
                       @ [movie ''tt2'' ''Crime'' ''N/A'']))" by code_simp
  have h4: "getDetailByTitle shelf ''Directed'' 0 = (Some directed, 1)" by code_simp
  have h4g: "\<not> (\<exists>x. map_of directed ''Genre'' = Some (JString x))" by (simp add: directed_def)
  have h4d: "map_of directed ''Director'' = Some (JString ''Drama'') \<and> Split ''Drama'' = [''Drama'']"
    by code_simp
  have h4a: "\<not> (\<exists>x. map_of directed ''Actors'' = Some (JString x))" by (simp add: directed_def)
  have c4: "\<exists>list s1 cs s2 cands.
         collectByGenre exampleLib shelf (TrimSpace exampleLib ''Drama'') perLevel 1 = (list, s1)
       \<and> runtimeChoice shelf s1 = (cs, s2)
       \<and> topByRating exampleLib cs list perLevel = Some cands \<and> mset cands = mset list
       \<and> (\<forall>m\<in>set list. genreContains exampleLib (TrimSpace exampleLib ''Drama'') m)
       \<and> recommend exampleLib shelf ''Directed'' 0 =
           (Recommendations (map_of directed ''Title'')
              (map entry (snd (admit cands (seedSeen directed, [])))), s2)"
    using u4 h4 h4g h4d h4a by blast
  have e4: "fst (recommend exampleLib shelf ''Directed'' 0)
       = Recommendations (Some (JString ''Directed''))
           (map entry [movie ''tt1'' ''Action, Drama'' ''8.5''])" by code_simp
  have e4p: "map_of plain ''Director'' = Some (JString ''Drama'')" by code_simp
  have h5: "answersBy shelf shelfByID shelfBySearch \<and> (0::int) < 20"
    by (simp add: answersBy_def shelf_def countingWorld_def)
  have c5: "fst (collectFound exampleLib shelf ''Drama'' 20 0)
       = expectedFound (genreContains exampleLib ''Drama'') shelfByID shelfBySearch 20
   \<and> mset (fst (collectByGenre exampleLib shelf ''Drama'' 20 0))
       = mset (map snd (expectedFound (genreContains exampleLib ''Drama'') shelfByID shelfBySearch 20))"
    using t5 h5 by blast
  have e5: "expectedFound (genreContains exampleLib ''Drama'') shelfByID shelfBySearch 20
       = [(''tt1'', movie ''tt1'' ''Action, Drama'' ''8.5'')]" by code_simp
  have e5b: "fst (collectByGenre exampleLib shelf ''Drama'' 20 0) = [movie ''tt1'' ''Action, Drama'' ''8.5'']"
    by code_simp
  have h6: "ImdbID (hit ''tt3'') \<noteq> [] \<and> ImdbID (hit ''tt3'') \<notin> fst ` set [(''tt0'', heat)]
     \<and> getDetailByID shelf (ImdbID (hit ''tt3'')) 4 = (Some plain, 5)"
    by code_simp
  have ng: "\<not> genreContains exampleLib ''drama'' plain" by code_simp
  have "scanItems exampleLib shelf ''drama'' 20 (hit ''tt3'' # [hit ''tt1'']) [(''tt0'', heat)] 4 =
           (if genreContains exampleLib ''drama'' plain
            then (if 20 \<le> int (length [(''tt0'', heat)]) + 1
                  then ([(''tt0'', heat)] @ [(ImdbID (hit ''tt3''), plain)], 5)
                  else scanItems exampleLib shelf ''drama'' 20 [hit ''tt1'']
                         ([(''tt0'', heat)] @ [(ImdbID (hit ''tt3''), plain)]) 5)
            else scanItems exampleLib shelf ''drama'' 20 [hit ''tt1''] [(''tt0'', heat)] 5)"
    using t6 h6 by blast
  then have c6: "scanItems exampleLib shelf ''drama'' 20 [hit ''tt3'', hit ''tt1''] [(''tt0'', heat)] 4
       = scanItems exampleLib shelf ''drama'' 20 [hit ''tt1''] [(''tt0'', heat)] 5"
    using ng by simp
  have e6: "scanItems exampleLib shelf ''drama'' 20 [hit ''tt3'', hit ''tt1''] [(''tt0'', heat)] 4
       = ([(''tt0'', heat), (''tt1'', movie ''tt1'' ''Action, Drama'' ''8.5'')], 6)" by code_simp
  have h7: "map_of (movie ''tt2'' ''Crime'' ''N/A'') ''Genre''
       = map_of [(''Genre'', JString ''Crime''), (''Director'', JString ''Crime'')] ''Genre''"
    by code_simp
  have c7: "genreMatch exampleLib ''crime'' (movie ''tt2'' ''Crime'' ''N/A'')
       = genreMatch exampleLib ''crime'' [(''Genre'', JString ''Crime''), (''Director'', JString ''Crime'')]"
    using t7 [rule_format, OF h7] .
  from h1 c1 e0 e1 h4 h4g h4d h4a c4 e4 e4p h5 c5 e5 e5b h6 c6 e6 h7 c7
  show ?thesis by (intro conjI) (elim conjE, assumption)+
qed

text \<open>
  Claim C2, as stated, fails: the seed's id goes into \<^verbatim>\<open>seen\<close> only when it is a
  non-empty string (line 248). A seed whose imdbID is the empty string does not keep a
  candidate with the same imdbID out of the list.
\<close>

theorem seed_id_empty_counterexample:
  "fst (getDetailByTitle blankWorld ''Blank'' 0) = Some blankSeed
   \<and> map_of blankSeed ''imdbID'' = Some (JString [])
   \<and> imdbIDs (recommendations (fst (recommend exampleLib blankWorld ''Blank'' 0)))
       = [Some (JString [])]"
  by code_simp

text \<open>
  Claim C2, amended. When the favorite title resolves, \<^verbatim>\<open>recommend\<close> answers with a
  list of at most 20 entries, and unless the seed's imdbID is the empty string, no entry
  has the seed's imdbID.
\<close>

theorem recommend_bounded_without_seed:
  assumes "getDetailByTitle W fav s = (Some seed, s0)"
  shows "\<exists>recs. fst (recommend L W fav s) = Recommendations (map_of seed ''Title'') recs
           \<and> length recs \<le> 20
           \<and> (map_of seed ''imdbID'' \<noteq> Some (JString [])
                 \<longrightarrow> map_of seed ''imdbID'' \<notin> set (imdbIDs recs))"
proof -
  from recommend_unfold [OF assms, of L]
  obtain acc where r: "fst (recommend L W fav s) = Recommendations (map_of seed ''Title'') (map entry (snd acc))"
    "accInv (seedSeen seed) acc" "int (length (snd acc)) \<le> perLevel" by blast
  have len: "length (map entry (snd acc)) \<le> 20" using r(3) by (simp add: perLevel_def)
  have ids: "\<forall>m\<in>set (snd acc). \<exists>j. map_of m ''imdbID'' = Some (JString j) \<and> j \<notin> seedSeen seed"
    using r(2) by (auto simp: accInv_def)
  then have "\<forall>m\<in>set (snd acc). \<exists>i. map_of m ''imdbID'' = Some (JString i)" by blast
  then have eq: "imdbIDs (map entry (snd acc)) = imdbIDs (snd acc)"
    unfolding imdbIDs_def by (rule entry_ids)
  have "map_of seed ''imdbID'' \<notin> set (imdbIDs (map entry (snd acc)))"
    if n: "map_of seed ''imdbID'' \<noteq> Some (JString [])"
  proof
    assume "map_of seed ''imdbID'' \<in> set (imdbIDs (map entry (snd acc)))"
    then obtain m where m: "m \<in> set (snd acc)" "map_of m ''imdbID'' = map_of seed ''imdbID''"
      unfolding eq by (auto simp: imdbIDs_def)
    then obtain j where j: "map_of seed ''imdbID'' = Some (JString j)" "j \<notin> seedSeen seed"
      using ids by force
    then have "j \<noteq> []" using n by auto
    then have "seedSeen seed = {j}" using j(1) by (simp add: seedSeen_def)
    then show False using j(2) by simp
  qed
  then show ?thesis using r(1) len by blast
qed

theorem recommend_bounded_without_seed_witness:
  "getDetailByTitle catalog ''Heat'' 0 = (Some heat, 1)
   \<and> (\<exists>recs. fst (recommend exampleLib catalog ''Heat'' 0)
                = Recommendations (map_of heat ''Title'') recs
          \<and> length recs \<le> 20
          \<and> (map_of heat ''imdbID'' \<noteq> Some (JString [])
                \<longrightarrow> map_of heat ''imdbID'' \<notin> set (imdbIDs recs)))
   \<and> map_of heat ''imdbID'' \<noteq> Some (JString [])
   \<and> map_of heat ''imdbID'' = Some (JString ''tt0'')
   \<and> imdbIDs (fst (collectByGenre exampleLib catalog ''Crime'' 20 1))
       = [Some (JString ''tt0''), Some (JString ''tt2'')]
   \<and> imdbIDs (recommendations (fst (recommend exampleLib catalog ''Heat'' 0)))
       = [Some (JString ''tt2''), Some (JString ''tt1'')]"
proof -
  have h: "getDetailByTitle catalog ''Heat'' 0 = (Some heat, 1)" by code_simp
  note c = recommend_bounded_without_seed [OF h, of exampleLib]
  have e0: "map_of heat ''imdbID'' \<noteq> Some (JString [])" by code_simp
  have e1: "map_of heat ''imdbID'' = Some (JString ''tt0'')" by code_simp
  have e2: "imdbIDs (fst (collectByGenre exampleLib catalog ''Crime'' 20 1))
       = [Some (JString ''tt0''), Some (JString ''tt2'')]" by code_simp
  have e3: "imdbIDs (recommendations (fst (recommend exampleLib catalog ''Heat'' 0)))
       = [Some (JString ''tt2''), Some (JString ''tt1'')]" by code_simp
  from h c e0 e1 e2 e3 show ?thesis by (intro conjI)
qed

text \<open>
  Claim C9. The entries of the recommendation list have pairwise different imdbIDs: one
  set \<^verbatim>\<open>seen\<close> runs through the three phases, so a candidate admitted for one term is
  not admitted again for a later term or in a later phase.
\<close>

theorem recommend_distinct_ids:
  assumes "fst (recommend L W fav s) = Recommendations t recs"
  shows "distinct (imdbIDs recs)"
proof -
  obtain r s0 where g: "getDetailByTitle W fav s = (r, s0)" by (cases "getDetailByTitle W fav s")
  show ?thesis
  proof (cases r)
    case None
    then show ?thesis using assms g by (simp add: recommend_def)
  next
    case (Some seed)
    have seed: "getDetailByTitle W fav s = (Some seed, s0)" using g Some by simp
    from recommend_unfold [OF seed, of L]
    obtain acc where r: "fst (recommend L W fav s) = Recommendations (map_of seed ''Title'') (map entry (snd acc))"
      "accInv (seedSeen seed) acc" by blast
    have "\<forall>m\<in>set (snd acc). \<exists>i. map_of m ''imdbID'' = Some (JString i)"
      using r(2) by (auto simp: accInv_def)
    then have "imdbIDs (map entry (snd acc)) = imdbIDs (snd acc)"
      unfolding imdbIDs_def by (rule entry_ids)
    moreover have "distinct (imdbIDs (snd acc))" using r(2) by (simp add: accInv_def)
    ultimately have "distinct (imdbIDs (map entry (snd acc)))" by (simp only:)
    moreover have "recs = map entry (snd acc)" using r(1) assms by simp
    ultimately show ?thesis by (simp only:)
  qed
qed

theorem recommend_distinct_ids_witness:
  "fst (recommend exampleLib catalog ''Crash'' 0)
     = Recommendations (Some (JString ''Crash''))
         [entry heat, entry (movie ''tt1'' ''Action, Drama'' ''8.5''), entry (movie ''tt2'' ''Crime'' ''N/A'')]
   \<and> distinct (imdbIDs
         [entry heat, entry (movie ''tt1'' ''Action, Drama'' ''8.5''), entry (movie ''tt2'' ''Crime'' ''N/A'')])
   \<and> imdbIDs (fst (collectByGenre exampleLib catalog ''Action'' 20 0))
       = [Some (JString ''tt0''), Some (JString ''tt1'')]
   \<and> imdbIDs (fst (collectByGenre exampleLib catalog ''Drama'' 20 0)) = [Some (JString ''tt1'')]
   \<and> imdbIDs (fst (collectByGenre exampleLib catalog ''Crime'' 20 0))
       = [Some (JString ''tt0''), Some (JString ''tt2'')]"
proof -
  have h: "fst (recommend exampleLib catalog ''Crash'' 0)
     = Recommendations (Some (JString ''Crash''))
         [entry heat, entry (movie ''tt1'' ''Action, Drama'' ''8.5''), entry (movie ''tt2'' ''Crime'' ''N/A'')]"
    by code_simp
  note c = recommend_distinct_ids [OF h]
  have e: "imdbIDs (fst (collectByGenre exampleLib catalog ''Action'' 20 0))
       = [Some (JString ''tt0''), Some (JString ''tt1'')]
   \<and> imdbIDs (fst (collectByGenre exampleLib catalog ''Drama'' 20 0)) = [Some (JString ''tt1'')]
   \<and> imdbIDs (fst (collectByGenre exampleLib catalog ''Crime'' 20 0))
       = [Some (JString ''tt0''), Some (JString ''tt2'')]" by code_simp
  from h c e show ?thesis by (intro conjI) (elim conjE, assumption)+
qed

text \<open>
  Claim C4. The director phase is entered only while the genre phase has left fewer than
  20 recommendations, the actor phase only while fewer than 20 are there after the
  director phase. When the genre phase reaches 20, the answer is its list and the world is
  in the state the genre phase left it in (no request of a later phase was made); when
  the genre phase stays short and the director phase reaches 20, the answer is the list
  after the director phase and the actor phase makes no request.
\<close>

theorem phases_entered_only_while_short:
  assumes "getDetailByTitle W fav s = (Some seed, s0)"
    and "fieldPhase L W seed ''Genre'' (seedSeen seed, []) s0 = (Some acc1, s1)"
  shows "(perLevel \<le> int (length (snd acc1)) \<longrightarrow>
            recommend L W fav s = (Recommendations (map_of seed ''Title'') (map entry (snd acc1)), s1))
       \<and> (\<forall>acc2 s2. int (length (snd acc1)) < perLevel
              \<and> fieldPhase L W seed ''Director'' acc1 s1 = (Some acc2, s2)
              \<and> perLevel \<le> int (length (snd acc2)) \<longrightarrow>
            recommend L W fav s = (Recommendations (map_of seed ''Title'') (map entry (snd acc2)), s2))
       \<and> (\<forall>field acc t. perLevel \<le> int (length (snd acc))
              \<longrightarrow> guardedPhase L W seed field acc t = (Some acc, t))"
proof (intro conjI allI impI)
  have l0: "int (length (snd (seedSeen seed, []::detail list))) < perLevel"
    by (simp add: perLevel_def)
  from fieldPhase_props [OF accInv_start l0, of L W seed "''Genre''" s0] assms(2)
  have i1: "accInv (seedSeen seed) acc1" and l1: "int (length (snd acc1)) \<le> perLevel" by auto
  {
    assume f: "perLevel \<le> int (length (snd acc1))"
    then have g: "guardedPhase L W seed field acc1 s1 = (Some acc1, s1)" for field
      by (simp add: guardedPhase_def)
    have "phases L W seed s0 = (Some (snd acc1), s1)"
      using assms(2) g l1 by (simp add: phases_def)
    then show "recommend L W fav s = (Recommendations (map_of seed ''Title'') (map entry (snd acc1)), s1)"
      using assms(1) by (simp add: recommend_def)
  }
  {
    fix acc2 s2
    assume a: "int (length (snd acc1)) < perLevel
                \<and> fieldPhase L W seed ''Director'' acc1 s1 = (Some acc2, s2)
                \<and> perLevel \<le> int (length (snd acc2))"
    from fieldPhase_props [OF i1, of L W seed "''Director''" s1] a
    have l2: "int (length (snd acc2)) \<le> perLevel" by auto
    have g2: "guardedPhase L W seed ''Director'' acc1 s1 = (Some acc2, s2)"
      using a by (simp add: guardedPhase_def)
    have g3: "guardedPhase L W seed ''Actors'' acc2 s2 = (Some acc2, s2)"
      using a by (simp add: guardedPhase_def)
    have "phases L W seed s0 = (Some (snd acc2), s2)"
      using assms(2) g2 g3 l2 by (simp add: phases_def)
    then show "recommend L W fav s = (Recommendations (map_of seed ''Title'') (map entry (snd acc2)), s2)"
      using assms(1) by (simp add: recommend_def)
  }
  fix field and acc :: "string set \<times> detail list" and t
  assume "perLevel \<le> int (length (snd acc))"
  then show "guardedPhase L W seed field acc t = (Some acc, t)"
    by (simp add: guardedPhase_def)
qed

theorem phases_entered_only_while_short_witness:
  "getDetailByTitle bigCatalog ''A'' 0 = (Some seedA, 1)
   \<and> fieldPhase exampleLib bigCatalog seedA ''Genre'' (seedSeen seedA, []) 1
       = (Some (insert ''s1'' (set (take 20 manyIDs)), first20), 22)
   \<and> perLevel \<le> int (length (snd (insert ''s1'' (set (take 20 manyIDs)), first20)))
   \<and> recommend exampleLib bigCatalog ''A'' 0
       = (Recommendations (map_of seedA ''Title'')
            (map entry (snd (insert ''s1'' (set (take 20 manyIDs)), first20))), 22)
   \<and> getDetailByTitle bigCatalog ''B'' 0 = (Some seedB, 1)
   \<and> fieldPhase exampleLib bigCatalog seedB ''Genre'' (seedSeen seedB, []) 1
       = (Some ({''s2''}, []), 35)
   \<and> int (length (snd ({''s2''}, []::detail list))) < perLevel
   \<and> fieldPhase exampleLib bigCatalog seedB ''Director'' ({''s2''}, []) 35
       = (Some (insert ''s2'' (set (take 20 manyIDs)), first20), 56)
   \<and> perLevel \<le> int (length (snd (insert ''s2'' (set (take 20 manyIDs)), first20)))
   \<and> recommend exampleLib bigCatalog ''B'' 0
       = (Recommendations (map_of seedB ''Title'')
            (map entry (snd (insert ''s2'' (set (take 20 manyIDs)), first20))), 56)
   \<and> guardedPhase exampleLib bigCatalog seedB ''Actors''
         (insert ''s2'' (set (take 20 manyIDs)), first20) 56
       = (Some (insert ''s2'' (set (take 20 manyIDs)), first20), 56)"
proof -
  have a1: "getDetailByTitle bigCatalog ''A'' 0 = (Some seedA, 1)" by code_simp
  have a2: "fieldPhase exampleLib bigCatalog seedA ''Genre'' (seedSeen seedA, []) 1
       = (Some (insert ''s1'' (set (take 20 manyIDs)), first20), 22)" by code_simp
  have a3: "perLevel \<le> int (length (snd (insert ''s1'' (set (take 20 manyIDs)), first20)))"
    by code_simp
  have a4: "recommend exampleLib bigCatalog ''A'' 0
       = (Recommendations (map_of seedA ''Title'')
            (map entry (snd (insert ''s1'' (set (take 20 manyIDs)), first20))), 22)"
    using phases_entered_only_while_short [OF a1 a2] a3 by blast
  have b1: "getDetailByTitle bigCatalog ''B'' 0 = (Some seedB, 1)" by code_simp
  have b2: "fieldPhase exampleLib bigCatalog seedB ''Genre'' (seedSeen seedB, []) 1
       = (Some ({''s2''}, []), 35)" by code_simp
  have b3: "int (length (snd ({''s2''}, []::detail list))) < perLevel" by code_simp
  have b4: "fieldPhase exampleLib bigCatalog seedB ''Director'' ({''s2''}, []) 35
       = (Some (insert ''s2'' (set (take 20 manyIDs)), first20), 56)" by code_simp
  have b5: "perLevel \<le> int (length (snd (insert ''s2'' (set (take 20 manyIDs)), first20)))"
    by code_simp
  note t = phases_entered_only_while_short [OF b1 b2]
  have b6: "recommend exampleLib bigCatalog ''B'' 0
       = (Recommendations (map_of seedB ''Title'')
            (map entry (snd (insert ''s2'' (set (take 20 manyIDs)), first20))), 56)"
    using t b3 b4 b5 by blast
  have b7: "guardedPhase exampleLib bigCatalog seedB ''Actors''
         (insert ''s2'' (set (take 20 manyIDs)), first20) 56
       = (Some (insert ''s2'' (set (take 20 manyIDs)), first20), 56)"
    using t [THEN conjunct2, THEN conjunct2, rule_format, OF b5] .
  from a1 a2 a3 a4 b1 b2 b3 b4 b5 b6 b7 show ?thesis by (intro conjI)
qed

text \<open>
  Claim C8. \<^verbatim>\<open>recommend\<close> reports NotFound exactly when the favorite title does not
  resolve. When it resolves, the answer is a list of recommendations (never an error or
  a panic), and the list is empty when the seed has no Genre, Director or Actors that
  is a string.
\<close>

theorem recommend_succeeds_when_resolved:
  "(fst (recommend L W fav s) = NotFound \<longleftrightarrow> fst (getDetailByTitle W fav s) = None)
   \<and> (\<forall>seed. fst (getDetailByTitle W fav s) = Some seed \<longrightarrow>
         (\<exists>recs. fst (recommend L W fav s) = Recommendations (map_of seed ''Title'') recs)
         \<and> ((\<forall>g. map_of seed ''Genre'' \<noteq> Some (JString g))
              \<and> (\<forall>g. map_of seed ''Director'' \<noteq> Some (JString g))
              \<and> (\<forall>g. map_of seed ''Actors'' \<noteq> Some (JString g))
              \<longrightarrow> fst (recommend L W fav s) = Recommendations (map_of seed ''Title'') []))"
proof -
  obtain r s0 where g: "getDetailByTitle W fav s = (r, s0)" by (cases "getDetailByTitle W fav s")
  show ?thesis
  proof (cases r)
    case None
    then show ?thesis using g by (simp add: recommend_def)
  next
    case (Some seed)
    have seed: "getDetailByTitle W fav s = (Some seed, s0)" using g Some by simp
    from recommend_unfold [OF seed, of L]
    obtain acc G D A where r: "fst (recommend L W fav s) = Recommendations (map_of seed ''Title'') (map entry (snd acc))"
      "snd (acc :: string set \<times> detail list) = G @ D @ A"
      "\<forall>m\<in>set G. fieldMatch L seed ''Genre'' m"
      "\<forall>m\<in>set D. fieldMatch L seed ''Director'' m"
      "\<forall>m\<in>set A. fieldMatch L seed ''Actors'' m" by blast
    have "snd acc = []"
      if "(\<forall>g. map_of seed ''Genre'' \<noteq> Some (JString g))
              \<and> (\<forall>g. map_of seed ''Director'' \<noteq> Some (JString g))
              \<and> (\<forall>g. map_of seed ''Actors'' \<noteq> Some (JString g))"
    proof -
      have "\<not> fieldMatch L seed ''Genre'' m" "\<not> fieldMatch L seed ''Director'' m"
        "\<not> fieldMatch L seed ''Actors'' m" for m
        using that by (simp_all add: fieldMatch_def)
      then have "G = []" "D = []" "A = []" using r(3,4,5) by (cases G; cases D; cases A; auto)+
      then show ?thesis using r(2) by simp
    qed
    then show ?thesis using g Some r(1) by auto
  qed
qed

theorem recommend_succeeds_when_resolved_witness:
  "fst (getDetailByTitle catalog ''Nope'' 0) = None
   \<and> fst (recommend exampleLib catalog ''Nope'' 0) = NotFound
   \<and> fst (getDetailByTitle bareWorld ''Bare'' 0) = Some bareSeed
   \<and> (\<forall>g. map_of bareSeed ''Genre'' \<noteq> Some (JString g))
   \<and> (\<forall>g. map_of bareSeed ''Director'' \<noteq> Some (JString g))
   \<and> (\<forall>g. map_of bareSeed ''Actors'' \<noteq> Some (JString g))
   \<and> fst (recommend exampleLib bareWorld ''Bare'' 0) = Recommendations (map_of bareSeed ''Title'') []
   \<and> fst (getDetailByTitle catalog ''Heat'' 0) = Some heat
   \<and> (\<exists>recs. fst (recommend exampleLib catalog ''Heat'' 0) = Recommendations (map_of heat ''Title'') recs)"
proof -
  have n1: "fst (getDetailByTitle catalog ''Nope'' 0) = None" by code_simp
  have n2: "fst (recommend exampleLib catalog ''Nope'' 0) = NotFound"
    using recommend_succeeds_when_resolved [of exampleLib catalog "''Nope''" 0] n1 by blast
  have b1: "fst (getDetailByTitle bareWorld ''Bare'' 0) = Some bareSeed" by code_simp
  have b2: "(\<forall>g. map_of bareSeed ''Genre'' \<noteq> Some (JString g))
   \<and> (\<forall>g. map_of bareSeed ''Director'' \<noteq> Some (JString g))
   \<and> (\<forall>g. map_of bareSeed ''Actors'' \<noteq> Some (JString g))" by (simp add: bareSeed_def)
  have b3: "fst (recommend exampleLib bareWorld ''Bare'' 0) = Recommendations (map_of bareSeed ''Title'') []"
    using recommend_succeeds_when_resolved [of exampleLib bareWorld "''Bare''" 0] b1 b2 by blast
  have h1: "fst (getDetailByTitle catalog ''Heat'' 0) = Some heat" by code_simp
  have h2: "\<exists>recs. fst (recommend exampleLib catalog ''Heat'' 0) = Recommendations (map_of heat ''Title'') recs"
    using recommend_succeeds_when_resolved [of exampleLib catalog "''Heat''" 0] h1 by blast
  from n1 n2 b1 b2 b3 h1 h2 show ?thesis by (intro conjI) (elim conjE, assumption)+
qed

end
